theory Spec2Isabelle
  imports Complex_Main
begin

section \<open>JavaScript values at the interface of the matcher\<close>

text \<open>
  \<^verbatim>\<open>checkAnswer(guess, actual)\<close> is an ordinary JavaScript function: a caller may pass
  any value. The values are modelled as far as the function can tell them apart: it tests
  truthiness and then calls \<^verbatim>\<open>toLowerCase\<close>, a method that strings have and that
  \<^verbatim>\<open>String\<close> objects inherit. \<open>JNum\<close> stands for the finite numbers (truthy unless
  zero), \<open>JStrObj\<close> for a wrapped string \<^verbatim>\<open>new String(s)\<close> (an object, so always
  truthy, also when \<open>s\<close> is empty), \<open>JObj\<close> for any other object or array, without a
  property \<^verbatim>\<open>toLowerCase\<close> (always truthy). An object that brings a \<^verbatim>\<open>toLowerCase\<close> of
  its own is not among the values modelled; no such object can come out of a JSON payload.

  Strings are Isabelle strings: sequences of the characters U+0000..U+00FF (Latin-1), each
  one UTF-16 code unit, so that \<open>length\<close> is \<^verbatim>\<open>.length\<close> and the characters are what
  \<^verbatim>\<open>s1[i - 1] === s2[j - 1]\<close> compares. On these characters the string methods and the
  regular expressions of \<^verbatim>\<open>clean\<close> are embedded exactly; text with characters beyond
  U+00FF is not covered.
\<close>

datatype jsval =
    JUndefined
  | JNull
  | JBool bool
  | JNum int
  | JNaN
  | JStr string
  | JStrObj string
  | JObj

datatype js_error = TypeError

fun truthy :: "jsval \<Rightarrow> bool" where
  "truthy JUndefined = False"
| "truthy JNull = False"
| "truthy (JBool b) = b"
| "truthy (JNum n) = (n \<noteq> 0)"
| "truthy JNaN = False"
| "truthy (JStr s) = (s \<noteq> [])"
| "truthy (JStrObj s) = True"
| "truthy JObj = True"

section \<open>Normalisation: \<^verbatim>\<open>clean\<close>\<close>

text \<open>\<^verbatim>\<open>.toLowerCase()\<close>: the capital letters are \<open>A\<close>..\<open>Z\<close> and, above U+007F, the
  letters U+00C0..U+00DE without the multiplication sign U+00D7; each has its small
  letter 32 code points higher.\<close>

definition is_upper :: "char \<Rightarrow> bool" where
  "is_upper c = (let n = (of_char c :: nat) in
     (65 \<le> n \<and> n \<le> 90) \<or> (192 \<le> n \<and> n \<le> 214) \<or> (216 \<le> n \<and> n \<le> 222))"

definition toLowerChar :: "char \<Rightarrow> char" where
  "toLowerChar c = (if is_upper c then char_of ((of_char c :: nat) + 32) else c)"

definition toLowerCase :: "string \<Rightarrow> string" where
  "toLowerCase s = map toLowerChar s"

text \<open>\<^verbatim>\<open>.normalize("NFD").replace(/[\u0300-\u036f]/g, "")\<close>: the canonical
  decomposition splits an accented letter into its base letter and combining marks of the
  range U+0300..U+036F, which the replacement removes, so the base letter is what remains.
  The letters \<open>ae\<close>, \<open>eth\<close>, \<open>o\<close> with stroke, \<open>thorn\<close> and sharp \<open>s\<close> and the signs
  have no canonical decomposition and stay.\<close>

definition base_letter :: "char \<Rightarrow> char" where
  "base_letter c = (let n = (of_char c :: nat) in
     if 192 \<le> n \<and> n \<le> 197 then CHR ''A''
     else if n = 199 then CHR ''C''
     else if 200 \<le> n \<and> n \<le> 203 then CHR ''E''
     else if 204 \<le> n \<and> n \<le> 207 then CHR ''I''
     else if n = 209 then CHR ''N''
     else if 210 \<le> n \<and> n \<le> 214 then CHR ''O''
     else if 217 \<le> n \<and> n \<le> 220 then CHR ''U''
     else if n = 221 then CHR ''Y''
     else if 224 \<le> n \<and> n \<le> 229 then CHR ''a''
     else if n = 231 then CHR ''c''
     else if 232 \<le> n \<and> n \<le> 235 then CHR ''e''
     else if 236 \<le> n \<and> n \<le> 239 then CHR ''i''
     else if n = 241 then CHR ''n''
     else if 242 \<le> n \<and> n \<le> 246 then CHR ''o''
     else if 249 \<le> n \<and> n \<le> 252 then CHR ''u''
     else if n = 253 \<or> n = 255 then CHR ''y''
     else c)"

definition remove_accents :: "string \<Rightarrow> string" where
  "remove_accents s = map base_letter s"

text \<open>The regular-expression classes: \<^verbatim>\<open>\w\<close> is \<^verbatim>\<open>[A-Za-z0-9_]\<close> (the expressions
  carry no \<^verbatim>\<open>u\<close> or \<^verbatim>\<open>i\<close> flag, so no accented letter is a word character);
  \<^verbatim>\<open>\s\<close> is tab, line feed, vertical tab, form feed, carriage return, blank and the
  no-break space U+00A0; the line terminators that \<^verbatim>\<open>.\<close> does not match are line feed
  and carriage return.\<close>

definition is_word :: "char \<Rightarrow> bool" where
  "is_word c = (let n = (of_char c :: nat) in
     (48 \<le> n \<and> n \<le> 57) \<or> (65 \<le> n \<and> n \<le> 90) \<or> n = 95 \<or> (97 \<le> n \<and> n \<le> 122))"

definition is_space :: "char \<Rightarrow> bool" where
  "is_space c = (let n = (of_char c :: nat) in (9 \<le> n \<and> n \<le> 13) \<or> n = 32 \<or> n = 160)"

definition is_line_end :: "char \<Rightarrow> bool" where
  "is_line_end c = (let n = (of_char c :: nat) in n = 10 \<or> n = 13)"

text \<open>\<^verbatim>\<open>.replace(/\(.*?\)/g, '')\<close>: at an opening parenthesis the lazy \<^verbatim>\<open>.*?\<close> runs to
  the first closing one, unless a line terminator comes first; the scan goes on behind the
  match.\<close>

fun after_close :: "string \<Rightarrow> string option" where
  "after_close [] = None"
| "after_close (c # cs) =
     (if c = CHR '')'' then Some cs
      else if is_line_end c then None
      else after_close cs)"

lemma after_close_shorter: "after_close cs = Some r \<Longrightarrow> length r < length cs"
  by (induction cs) (auto split: if_splits)

function strip_parens :: "string \<Rightarrow> string" where
  "strip_parens [] = []"
| "strip_parens (c # cs) =
     (if c = CHR ''(''
      then (case after_close cs of
              Some r \<Rightarrow> strip_parens r
            | None \<Rightarrow> c # strip_parens cs)
      else c # strip_parens cs)"
  by pat_completeness auto
termination
  by (relation "measure length") (auto dest: after_close_shorter)

text \<open>\<^verbatim>\<open>.replace(/\bfeat\.?\b.*$/g, '')\<close>: \<^verbatim>\<open>feat\<close> must start at a word boundary and
  be followed by the end of the text or by a character that is not a word character (the
  optional dot is such a character, and whether the expression consumes it or not a word
  boundary is found); \<^verbatim>\<open>.*$\<close> then has to reach the end of the text, which a line
  terminator prevents.\<close>

definition feat_here :: "string \<Rightarrow> bool" where
  "feat_here s = (take 4 s = ''feat'' \<and>
     (case drop 4 s of [] \<Rightarrow> True | d # _ \<Rightarrow> \<not> is_word d) \<and>
     \<not> list_ex is_line_end (drop 4 s))"

fun drop_feat :: "bool \<Rightarrow> string \<Rightarrow> string" where
  "drop_feat prev_word [] = []"
| "drop_feat prev_word (c # cs) =
     (if \<not> prev_word \<and> feat_here (c # cs) then []
      else c # drop_feat (is_word c) cs)"

text \<open>\<^verbatim>\<open>.replace(/[^\w\s]/g, ' ')\<close>, \<^verbatim>\<open>.replace(/\s+/g, ' ')\<close> and \<^verbatim>\<open>.trim()\<close>.\<close>

definition blank_punct :: "string \<Rightarrow> string" where
  "blank_punct s = map (\<lambda>c. if is_word c \<or> is_space c then c else CHR '' '') s"

function collapse_ws :: "string \<Rightarrow> string" where
  "collapse_ws [] = []"
| "collapse_ws (c # cs) =
     (if is_space c then CHR '' '' # collapse_ws (dropWhile is_space cs)
      else c # collapse_ws cs)"
  by pat_completeness auto
termination
  by (relation "measure length") (auto simp: less_Suc_eq_le length_dropWhile_le)

definition trim :: "string \<Rightarrow> string" where
  "trim s = rev (dropWhile is_space (rev (dropWhile is_space s)))"

definition clean :: "string \<Rightarrow> string" where
  "clean str = trim (collapse_ws (blank_punct (drop_feat False (strip_parens
     (remove_accents (toLowerCase str))))))"

section \<open>The matcher: \<^verbatim>\<open>checkAnswer\<close>\<close>

text \<open>The repository holds the matcher in two revisions. \<open>checkAnswer\<close> is the one with
  the accents removed, the stop words, the token overlap of 80% and the similarity of 0.75,
  which the unit tests (\<^verbatim>\<open>checkAnswer.test.js\<close>) and the integration tests of the
  repository are written for. The file \<^verbatim>\<open>app/server/utils/checkAnswer.js\<close> holds the
  other one, embedded below as \<open>checkAnswer_earlier\<close>. The handlers of the server are
  embedded with \<open>checkAnswer\<close>.\<close>

text \<open>\<^verbatim>\<open>str.split(' ')\<close>: the pieces between single blanks, empty pieces included.\<close>

fun split_blank :: "string \<Rightarrow> string list" where
  "split_blank [] = [[]]"
| "split_blank (c # cs) =
     (if c = CHR '' '' then [] # split_blank cs
      else (case split_blank cs of
              w # ws \<Rightarrow> (c # w) # ws
            | [] \<Rightarrow> [[c]]))"

text \<open>A \<^verbatim>\<open>Set\<close> built from an array is modelled by the array without its duplicates;
  the matcher only uses the size of a set and membership in it.\<close>

definition stopwords :: "string list" where
  "stopwords = [''the'', ''a'', ''an'', ''le'', ''la'', ''il'', ''lo'', ''i'', ''gli'',
     ''un'', ''una'', ''uno'', ''el'', ''los'', ''las'', ''unos'', ''unas'', ''and'',
     ''of'', ''in'', ''on'', ''at'', ''to'']"

definition getTokens :: "string \<Rightarrow> string list" where
  "getTokens str =
     remdups (filter (\<lambda>w. length w > 0 \<and> w \<notin> set stopwords) (split_blank str))"

definition rawTokens :: "string \<Rightarrow> string list" where
  "rawTokens str = remdups (filter (\<lambda>w. w \<noteq> []) (split_blank str))"

definition finalTokens :: "string \<Rightarrow> string list" where
  "finalTokens str = (if length (getTokens str) > 0 then getTokens str else rawTokens str)"

definition intersection :: "string \<Rightarrow> string \<Rightarrow> string list" where
  "intersection g a = filter (\<lambda>x. x \<in> set (finalTokens a)) (finalTokens g)"

text \<open>The quotients of the source are IEEE doubles. They are taken here as exact
  rationals: numerator and denominator are lengths of strings and token lists, and for
  such small integers the comparisons of the rounded quotient with the literals
  \<^verbatim>\<open>0.8\<close>, \<^verbatim>\<open>0.3\<close>, \<^verbatim>\<open>0.75\<close>, \<^verbatim>\<open>0.6\<close> and \<^verbatim>\<open>0.7\<close> come out as the exact
  ones do.\<close>

definition overlapRatio :: "string \<Rightarrow> string \<Rightarrow> rat" where
  "overlapRatio g a = of_nat (length (intersection g a)) / of_nat (length (finalTokens a))"

text \<open>The table \<^verbatim>\<open>dp\<close> of the edit distance, row by row. \<open>dp_row c s2 prev left\<close>
  continues the row of the character \<open>c\<close> of \<^verbatim>\<open>s1\<close>: \<open>prev\<close> is the row above from the
  column to the left on, \<open>left\<close> the entry just written.\<close>

fun dp_row :: "char \<Rightarrow> string \<Rightarrow> nat list \<Rightarrow> nat \<Rightarrow> nat list" where
  "dp_row c (d # ds) (diag # up # prev) left =
     (let cost = (if c = d then 0 else 1);
          v = min (min (up + 1) (left + 1)) (diag + cost)
      in v # dp_row c ds (up # prev) v)"
| "dp_row c _ _ left = []"

fun dp_rows :: "string \<Rightarrow> string \<Rightarrow> nat \<Rightarrow> nat list \<Rightarrow> nat list" where
  "dp_rows [] s2 i prev = prev"
| "dp_rows (c # cs) s2 i prev = dp_rows cs s2 (Suc i) (Suc i # dp_row c s2 prev (Suc i))"

definition editDistance :: "string \<Rightarrow> string \<Rightarrow> nat" where
  "editDistance s1 s2 = last (dp_rows s1 s2 0 [0 ..< Suc (length s2)])"

definition similarity :: "string \<Rightarrow> string \<Rightarrow> rat" where
  "similarity s1 s2 =
     (let len1 = length s1; len2 = length s2 in
      if len1 = 0 \<or> len2 = 0 then 0
      else if \<bar>of_nat len1 - of_nat len2\<bar> / of_nat (max len1 len2) > (3 / 10 :: rat) then 0
      else 1 - of_nat (editDistance s1 s2) / of_nat (max len1 len2))"

text \<open>The decision on two cleaned, non-empty strings, tier by tier.\<close>

definition tiers :: "string \<Rightarrow> string \<Rightarrow> bool" where
  "tiers g a =
     (if g = a then True
      else if length (finalTokens a) > 0 \<and> overlapRatio g a \<ge> 4 / 5 then True
      else similarity g a \<ge> 3 / 4)"

text \<open>\<^verbatim>\<open>clean\<close> calls \<^verbatim>\<open>str.toLowerCase()\<close>: on a string or a \<^verbatim>\<open>String\<close> object
  the method returns the string in small letters, on every other value it is missing and
  the call throws.\<close>

fun clean_val :: "jsval \<Rightarrow> js_error + string" where
  "clean_val (JStr s) = Inr (clean s)"
| "clean_val (JStrObj s) = Inr (clean s)"
| "clean_val _ = Inl TypeError"

definition checkAnswer :: "jsval \<Rightarrow> jsval \<Rightarrow> js_error + bool" where
  "checkAnswer guess actual =
     (if \<not> truthy guess \<or> \<not> truthy actual then Inr False
      else case clean_val guess of
             Inl e \<Rightarrow> Inl e
           | Inr g \<Rightarrow>
               (case clean_val actual of
                  Inl e \<Rightarrow> Inl e
                | Inr a \<Rightarrow>
                    if g = [] \<or> a = [] then Inr False
                    else Inr (tiers g a)))"

subsection \<open>The earlier revision of the matcher\<close>

text \<open>The function in \<^verbatim>\<open>app/server/utils/checkAnswer.js\<close>, from before the stop words
  and the stricter thresholds: its \<^verbatim>\<open>clean\<close> does not remove the accents (an accented
  letter is no word character and becomes a blank), it has a substring tier, counts all
  words, empty ones included, and accepts an overlap of 0.6 and a similarity of 0.7, without
  the shortcut on the lengths.\<close>

definition clean_earlier :: "string \<Rightarrow> string" where
  "clean_earlier str =
     trim (collapse_ws (blank_punct (drop_feat False (strip_parens (toLowerCase str)))))"

fun clean_val_earlier :: "jsval \<Rightarrow> js_error + string" where
  "clean_val_earlier (JStr s) = Inr (clean_earlier s)"
| "clean_val_earlier (JStrObj s) = Inr (clean_earlier s)"
| "clean_val_earlier _ = Inl TypeError"

fun startsWith :: "string \<Rightarrow> string \<Rightarrow> bool" where
  "startsWith s [] = True"
| "startsWith [] (d # ds) = False"
| "startsWith (c # cs) (d # ds) = (c = d \<and> startsWith cs ds)"

fun includes_str :: "string \<Rightarrow> string \<Rightarrow> bool" where
  "includes_str [] sub = startsWith [] sub"
| "includes_str (c # cs) sub = (startsWith (c # cs) sub \<or> includes_str cs sub)"

definition words :: "string \<Rightarrow> string list" where
  "words str = remdups (split_blank str)"

definition common :: "string \<Rightarrow> string \<Rightarrow> string list" where
  "common g a = filter (\<lambda>w. w \<in> set (words g)) (words a)"

definition similarity_earlier :: "string \<Rightarrow> string \<Rightarrow> rat" where
  "similarity_earlier s1 s2 =
     (let len1 = length s1; len2 = length s2 in
      if len1 = 0 \<or> len2 = 0 then 0
      else 1 - of_nat (editDistance s1 s2) / of_nat (max len1 len2))"

definition tiers_earlier :: "string \<Rightarrow> string \<Rightarrow> bool" where
  "tiers_earlier g a =
     (if g = a then True
      else if includes_str g a \<or> includes_str a g then True
      else if length (words a) > 0 \<and>
              (of_nat (length (common g a)) / of_nat (length (words a)) :: rat) \<ge> 3 / 5 then True
      else similarity_earlier g a \<ge> 7 / 10)"

definition checkAnswer_earlier :: "jsval \<Rightarrow> jsval \<Rightarrow> js_error + bool" where
  "checkAnswer_earlier guess actual =
     (if \<not> truthy guess \<or> \<not> truthy actual then Inr False
      else case clean_val_earlier guess of
             Inl e \<Rightarrow> Inl e
           | Inr g \<Rightarrow>
               (case clean_val_earlier actual of
                  Inl e \<Rightarrow> Inl e
                | Inr a \<Rightarrow>
                    if g = [] \<or> a = [] then Inr False
                    else Inr (tiers_earlier g a)))"

text \<open>Whether a value has the method \<^verbatim>\<open>toLowerCase\<close>, for stating on which arguments
  the matcher returns.\<close>

fun has_toLowerCase :: "jsval \<Rightarrow> bool" where
  "has_toLowerCase (JStr s) = True"
| "has_toLowerCase (JStrObj s) = True"
| "has_toLowerCase _ = False"

section \<open>The room server: \<^verbatim>\<open>index.js\<close>\<close>

text \<open>
  The server keeps its rooms in one table, reacts to socket events and arms timers with
  \<^verbatim>\<open>setTimeout\<close>. Node runs one handler or callback at a time, so the server is a
  transition system: a state, and one step per socket event, timer firing or answer of an
  external service. What the handlers send with \<^verbatim>\<open>emit\<close> is collected in an outbox, in
  the order sent. The persistence calls (\<^verbatim>\<open>createGameRoom\<close>, \<^verbatim>\<open>updateGameRoomStatus\<close>,
  \<^verbatim>\<open>endGame\<close>) do not touch a room and are left out.

  An exception that escapes a handler or a timer callback, or that rejects the promise of
  the asynchronous \<^verbatim>\<open>start_game\<close> handler outside its \<^verbatim>\<open>try\<close> block, is handled by
  nobody and ends the Node process; a step then returns the error, and a run stops there.
  The \<^verbatim>\<open>disconnect\<close> handler only writes to the log and is no step. Every socket event is
  taken with a payload object, as the client sends it.

  The table is the plain object \<^verbatim>\<open>const rooms = {}\<close>. \<open>rooms s\<close> holds its own
  properties, the rooms created. A lookup \<^verbatim>\<open>rooms[roomId]\<close> with a key that is no room
  but the name of a property every object inherits (\<open>inherited_key\<close>) does not give
  \<^verbatim>\<open>undefined\<close>: it gives a function or the prototype object, a truthy value without
  the fields of a room.
\<close>

datatype status = LOBBY | LOADING | PLAYING | ENDED

record player =
  player_id :: string
  player_name :: string
  score :: nat

text \<open>A song is an object: \<open>ref\<close> is its identity, which \<^verbatim>\<open>===\<close> compares.\<close>

record song =
  ref :: nat
  title :: string
  previewUrl :: string

record room =
  players :: "player list"
  state :: status
  currentRound :: nat
  totalRounds :: nat
  currentSong :: "song option"
  roundActive :: bool
  songs :: "song list"

datatype target = ToRoom string | ToSocket string

datatype event =
    room_created
  | room_joined
  | player_joined "player list"
  | error_event string
  | game_loading
  | game_started nat
  | start_countdown nat
  | new_round nat string
  | round_timeout song
  | update_scores "player list"
  | round_winner string song
  | game_over "player list"
  | wrong_guess

text \<open>The callbacks handed to \<^verbatim>\<open>setTimeout\<close>, with what their closures hold:
  \<^verbatim>\<open>() => startRound(roomId)\<close>, the callback of the countdown, the callback of the round's
  timeout with its \<^verbatim>\<open>song\<close>, the pause after a winner, and the timer that rejects the
  race with the playlist request.\<close>

datatype callback =
    StartRoundCb string
  | CountdownCb string
  | RoundTimeoutCb string song
  | WinnerPauseCb string
  | AiTimeoutCb nat

text \<open>A \<^verbatim>\<open>start_game\<close> handler is asynchronous: it waits for the playlist request and
  then for the searches. A pending call is kept with the stage it waits in.\<close>

datatype stage = AwaitAi | AwaitSearch nat | Settled

record load =
  load_room :: string
  requestedRounds :: int
  stage :: stage

record server =
  rooms :: "string \<rightharpoonup> room"
  timers :: "(callback \<times> nat) list"
  outbox :: "(target \<times> event) list"
  loads :: "load list"
  next_ref :: nat

definition inherited_key :: "string \<Rightarrow> bool" where
  "inherited_key k = (k \<in> set [''constructor'', ''__proto__'', ''toString'',
     ''toLocaleString'', ''valueOf'', ''hasOwnProperty'', ''isPrototypeOf'',
     ''propertyIsEnumerable'', ''__defineGetter__'', ''__defineSetter__'',
     ''__lookupGetter__'', ''__lookupSetter__''])"

definition emit :: "target \<Rightarrow> event \<Rightarrow> server \<Rightarrow> server" where
  "emit t e s = s\<lparr>outbox := outbox s @ [(t, e)]\<rparr>"

definition setTimeout :: "callback \<Rightarrow> nat \<Rightarrow> server \<Rightarrow> server" where
  "setTimeout cb ms s = s\<lparr>timers := timers s @ [(cb, ms)]\<rparr>"

definition put_room :: "string \<Rightarrow> room \<Rightarrow> server \<Rightarrow> server" where
  "put_room rid r s = s\<lparr>rooms := (rooms s)(rid \<mapsto> r)\<rparr>"

definition set_stage :: "nat \<Rightarrow> stage \<Rightarrow> server \<Rightarrow> server" where
  "set_stage n st s = s\<lparr>loads := (loads s)[n := (loads s ! n)\<lparr>stage := st\<rparr>]\<rparr>"

subsection \<open>Rooms: \<^verbatim>\<open>create_room\<close>, \<^verbatim>\<open>join_room\<close>\<close>

text \<open>\<^verbatim>\<open>create_room\<close> draws the room id at random; \<open>rid\<close> is the id drawn. It builds
  the states the runs below start from and is not one of their inputs: the table is not
  extended during a run.\<close>

definition new_room :: "string \<Rightarrow> string \<Rightarrow> room" where
  "new_room sid playerName =
     \<lparr>players = [\<lparr>player_id = sid, player_name = playerName, score = 0\<rparr>],
      state = LOBBY, currentRound = 0, totalRounds = 10, currentSong = None,
      roundActive = False, songs = []\<rparr>"

definition create_room :: "string \<Rightarrow> string \<Rightarrow> string \<Rightarrow> server \<Rightarrow> server" where
  "create_room sid playerName rid s =
     emit (ToSocket sid) room_created (put_room rid (new_room sid playerName) s)"

definition empty_server :: server where
  "empty_server = \<lparr>rooms = Map.empty, timers = [], outbox = [], loads = [], next_ref = 0\<rparr>"

text \<open>On an inherited key \<^verbatim>\<open>rooms[roomId].state\<close> is \<^verbatim>\<open>undefined\<close>, so the handler
  answers as for a missing room.\<close>

definition join_room :: "string \<Rightarrow> string \<Rightarrow> string \<Rightarrow> server \<Rightarrow> server" where
  "join_room sid rid playerName s =
     (case rooms s rid of
        Some room \<Rightarrow>
          if state room = LOBBY then
            let room' = room\<lparr>players := players room @
                  [\<lparr>player_id = sid, player_name = playerName, score = 0\<rparr>]\<rparr>
            in emit (ToSocket sid) room_joined
                 (emit (ToRoom rid) (player_joined (players room')) (put_room rid room' s))
          else emit (ToSocket sid) (error_event ''ROOM_NOT_FOUND_OR_STARTED'') s
      | None \<Rightarrow> emit (ToSocket sid) (error_event ''ROOM_NOT_FOUND_OR_STARTED'') s)"

subsection \<open>Starting a game: \<^verbatim>\<open>start_game\<close>\<close>

text \<open>\<open>rounds\<close> is the value of \<^verbatim>\<open>parseInt(rounds, 10)\<close>, \<open>None\<close> for \<^verbatim>\<open>NaN\<close>.\<close>

definition requested :: "int option \<Rightarrow> int" where
  "requested rounds =
     (let r = (case rounds of None \<Rightarrow> 10 | Some n \<Rightarrow> if n = 0 then 10 else n)
      in if r > 50 then 50 else r)"

text \<open>The part of the handler before its first \<^verbatim>\<open>await\<close>. Its guard
  \<^verbatim>\<open>if (!room || room.players.length === 0) return;\<close> stands before the \<^verbatim>\<open>try\<close>
  block: on an inherited key \<^verbatim>\<open>room\<close> is truthy, \<^verbatim>\<open>room.players\<close> is
  \<^verbatim>\<open>undefined\<close> and reading its \<^verbatim>\<open>length\<close> throws.\<close>

definition start_game :: "string \<Rightarrow> string \<Rightarrow> int option \<Rightarrow> server \<Rightarrow> js_error + server" where
  "start_game sid rid rounds s =
     (case rooms s rid of
        None \<Rightarrow> if inherited_key rid then Inl TypeError else Inr s
      | Some room \<Rightarrow>
          if length (players room) = 0 then Inr s
          else
            let s1 = put_room rid (room\<lparr>state := LOADING\<rparr>) s;
                s2 = emit (ToRoom rid) game_loading s1;
                s3 = s2\<lparr>loads := loads s2 @
                       [\<lparr>load_room = rid, requestedRounds = requested rounds, stage = AwaitAi\<rparr>]\<rparr>
            in Inr (setTimeout (AiTimeoutCb (length (loads s))) 20000 s3))"

text \<open>The \<^verbatim>\<open>catch\<close> block.\<close>

definition start_failed :: "string \<Rightarrow> string \<Rightarrow> server \<Rightarrow> server" where
  "start_failed rid code s =
     (case rooms s rid of
        None \<Rightarrow> s
      | Some room \<Rightarrow> emit (ToRoom rid) (error_event code) (put_room rid (room\<lparr>state := LOBBY\<rparr>) s))"

text \<open>The playlist request answers: \<open>Some k\<close> for an array of \<open>k\<close> candidates (the
  service returns the empty array when its request fails), \<open>None\<close> for anything else,
  \<^verbatim>\<open>null\<close> for one, on which the handler throws into its \<^verbatim>\<open>catch\<close> block before any
  search starts.\<close>

definition ai_reply :: "nat \<Rightarrow> nat option \<Rightarrow> server \<Rightarrow> server" where
  "ai_reply n k s =
     (if n < length (loads s) \<and> stage (loads s ! n) = AwaitAi then
        (case k of
           None \<Rightarrow> start_failed (load_room (loads s ! n)) ''GENERATION_FAILED'' (set_stage n Settled s)
         | Some 0 \<Rightarrow> start_failed (load_room (loads s ! n)) ''GENERATION_FAILED'' (set_stage n Settled s)
         | Some (Suc m) \<Rightarrow> set_stage n (AwaitSearch (Suc m)) s)
      else s)"

text \<open>The 20 s timer rejects the race; that matters only while the request is pending.\<close>

definition ai_timeout :: "nat \<Rightarrow> server \<Rightarrow> server" where
  "ai_timeout n s =
     (if n < length (loads s) \<and> stage (loads s ! n) = AwaitAi then
        start_failed (load_room (loads s ! n)) ''AI_TIMEOUT'' (set_stage n Settled s)
      else s)"

text \<open>\<^verbatim>\<open>slice(0, n)\<close>, where a negative \<open>n\<close> counts from the end.\<close>

definition slice0 :: "int \<Rightarrow> 'a list \<Rightarrow> 'a list" where
  "slice0 n xs = take (nat (if n < 0 then int (length xs) + n else n)) xs"

text \<open>The searches answer, one result per candidate, \<open>None\<close> for \<^verbatim>\<open>null\<close>. Every
  song found is a new object. The random \<^verbatim>\<open>sort\<close> leaves the songs in some order; the
  results are taken in the order it leaves them.\<close>

fun mk_songs :: "nat \<Rightarrow> (string \<times> string) list \<Rightarrow> song list" where
  "mk_songs r [] = []"
| "mk_songs r ((t, u) # xs) = \<lparr>ref = r, title = t, previewUrl = u\<rparr> # mk_songs (Suc r) xs"

definition validSongs :: "(string \<times> string) option list \<Rightarrow> (string \<times> string) list" where
  "validSongs results = map the (filter (\<lambda>x. x \<noteq> None) results)"

definition search_reply :: "nat \<Rightarrow> (string \<times> string) option list \<Rightarrow> server \<Rightarrow> server" where
  "search_reply n results s =
     (if n < length (loads s) \<and> stage (loads s ! n) = AwaitSearch (length results) then
        let ld = loads s ! n;
            rid = load_room ld;
            found = mk_songs (next_ref s) (validSongs results);
            finalPlaylist = slice0 (requestedRounds ld) found;
            s1 = (set_stage n Settled s)\<lparr>next_ref := next_ref s + length found\<rparr>
        in if length finalPlaylist = 0 then start_failed rid ''GENERATION_FAILED'' s1
           else (case rooms s1 rid of
                   None \<Rightarrow> s1
                 | Some room \<Rightarrow>
                     let room' = room\<lparr>songs := finalPlaylist,
                                      totalRounds := length finalPlaylist,
                                      currentRound := 0,
                                      state := PLAYING\<rparr>
                     in setTimeout (StartRoundCb rid) 1000
                          (emit (ToRoom rid) (game_started (totalRounds room'))
                             (put_room rid room' s1)))
      else s)"

subsection \<open>Rounds: \<^verbatim>\<open>startRound\<close>, \<^verbatim>\<open>endGameInternal\<close> and the timer callbacks\<close>

text \<open>The functions and callbacks of a round get the id of a room from the handler that
  armed them, never a key from a client.\<close>

definition endGameInternal :: "string \<Rightarrow> server \<Rightarrow> server" where
  "endGameInternal rid s =
     (case rooms s rid of
        None \<Rightarrow> s
      | Some room \<Rightarrow>
          emit (ToRoom rid) (game_over (players room)) (put_room rid (room\<lparr>state := ENDED\<rparr>) s))"

definition startRound :: "string \<Rightarrow> server \<Rightarrow> js_error + server" where
  "startRound rid s =
     (case rooms s rid of
        None \<Rightarrow> Inl TypeError
      | Some room \<Rightarrow>
          if currentRound room \<ge> totalRounds room then Inr (endGameInternal rid s)
          else Inr (setTimeout (CountdownCb rid) 3000
                      (emit (ToRoom rid) (start_countdown 3) s)))"

text \<open>The callback of the countdown. Reading \<^verbatim>\<open>room.songs\<close> behind its end gives
  \<^verbatim>\<open>undefined\<close>, and \<^verbatim>\<open>song.previewUrl\<close> then throws.\<close>

definition countdown_done :: "string \<Rightarrow> server \<Rightarrow> js_error + server" where
  "countdown_done rid s =
     (case rooms s rid of
        None \<Rightarrow> Inl TypeError
      | Some room \<Rightarrow>
          if currentRound room < length (songs room) then
            let song = songs room ! currentRound room;
                room' = room\<lparr>currentSong := Some song, roundActive := True,
                             currentRound := currentRound room + 1\<rparr>
            in Inr (setTimeout (RoundTimeoutCb rid song) 30000
                      (emit (ToRoom rid) (new_round (currentRound room') (previewUrl song))
                         (put_room rid room' s)))
          else Inl TypeError)"

definition same_song :: "song option \<Rightarrow> song \<Rightarrow> bool" where
  "same_song cur song = (case cur of None \<Rightarrow> False | Some c \<Rightarrow> ref c = ref song)"

definition round_timed_out :: "string \<Rightarrow> song \<Rightarrow> server \<Rightarrow> js_error + server" where
  "round_timed_out rid song s =
     (case rooms s rid of
        None \<Rightarrow> Inl TypeError
      | Some room \<Rightarrow>
          if roundActive room \<and> same_song (currentSong room) song then
            Inr (setTimeout (StartRoundCb rid) 5000
                   (emit (ToRoom rid) (round_timeout song)
                      (put_room rid (room\<lparr>roundActive := False\<rparr>) s)))
          else Inr s)"

definition winner_pause_done :: "string \<Rightarrow> server \<Rightarrow> js_error + server" where
  "winner_pause_done rid s =
     (case rooms s rid of
        None \<Rightarrow> Inl TypeError
      | Some room \<Rightarrow>
          if currentRound room < totalRounds room then startRound rid s
          else Inr (endGameInternal rid s))"

subsection \<open>Guesses: \<^verbatim>\<open>submit_guess\<close>\<close>

text \<open>\<^verbatim>\<open>player.score += 1\<close> on the player that \<^verbatim>\<open>find\<close> returns, the first one with
  the id of the socket.\<close>

fun award :: "string \<Rightarrow> player list \<Rightarrow> player list" where
  "award sid [] = []"
| "award sid (p # ps) =
     (if player_id p = sid then p\<lparr>score := score p + 1\<rparr> # ps else p # award sid ps)"

text \<open>On an inherited key \<^verbatim>\<open>room.roundActive\<close> is \<^verbatim>\<open>undefined\<close>, and the handler
  returns as for a missing room.\<close>

definition submit_guess :: "string \<Rightarrow> string \<Rightarrow> jsval \<Rightarrow> server \<Rightarrow> js_error + server" where
  "submit_guess sid rid guess s =
     (case rooms s rid of
        None \<Rightarrow> Inr s
      | Some room \<Rightarrow>
          if \<not> roundActive room \<or> state room \<noteq> PLAYING then Inr s
          else
            (case currentSong room of
               None \<Rightarrow> Inl TypeError
             | Some cur \<Rightarrow>
                 (case checkAnswer guess (JStr (title cur)) of
                    Inl e \<Rightarrow> Inl e
                  | Inr True \<Rightarrow>
                      let room1 = room\<lparr>roundActive := False\<rparr> in
                      (case find (\<lambda>p. player_id p = sid) (players room1) of
                         None \<Rightarrow> Inr (put_room rid room1 s)
                       | Some player \<Rightarrow>
                           let room2 = room1\<lparr>players := award sid (players room1)\<rparr>
                           in Inr (setTimeout (WinnerPauseCb rid) 5000
                                (emit (ToRoom rid) (round_winner (player_name player) cur)
                                   (emit (ToRoom rid) (update_scores (players room2))
                                      (put_room rid room2 s)))))
                  | Inr False \<Rightarrow> Inr (emit (ToSocket sid) wrong_guess s))))"

text \<open>The older copy of the handler in the repository differs in the pause after a
  winner, 1000 ms.\<close>

definition submit_guess_older :: "string \<Rightarrow> string \<Rightarrow> jsval \<Rightarrow> server \<Rightarrow> js_error + server" where
  "submit_guess_older sid rid guess s =
     (case rooms s rid of
        None \<Rightarrow> Inr s
      | Some room \<Rightarrow>
          if \<not> roundActive room \<or> state room \<noteq> PLAYING then Inr s
          else
            (case currentSong room of
               None \<Rightarrow> Inl TypeError
             | Some cur \<Rightarrow>
                 (case checkAnswer guess (JStr (title cur)) of
                    Inl e \<Rightarrow> Inl e
                  | Inr True \<Rightarrow>
                      let room1 = room\<lparr>roundActive := False\<rparr> in
                      (case find (\<lambda>p. player_id p = sid) (players room1) of
                         None \<Rightarrow> Inr (put_room rid room1 s)
                       | Some player \<Rightarrow>
                           let room2 = room1\<lparr>players := award sid (players room1)\<rparr>
                           in Inr (setTimeout (WinnerPauseCb rid) 1000
                                (emit (ToRoom rid) (round_winner (player_name player) cur)
                                   (emit (ToRoom rid) (update_scores (players room2))
                                      (put_room rid room2 s)))))
                  | Inr False \<Rightarrow> Inr (emit (ToSocket sid) wrong_guess s))))"

subsection \<open>Steps and runs\<close>

fun run_callback :: "callback \<Rightarrow> server \<Rightarrow> js_error + server" where
  "run_callback (StartRoundCb rid) s = startRound rid s"
| "run_callback (CountdownCb rid) s = countdown_done rid s"
| "run_callback (RoundTimeoutCb rid song) s = round_timed_out rid song s"
| "run_callback (WinnerPauseCb rid) s = winner_pause_done rid s"
| "run_callback (AiTimeoutCb n) s = Inr (ai_timeout n s)"

text \<open>\<open>Fire i\<close>: the \<open>i\<close>-th pending timer is due; it leaves the list and its callback
  runs. Which timer is due next is left to the run, so the runs of the model include every
  order in which the real timers can fire.\<close>

definition fire :: "nat \<Rightarrow> server \<Rightarrow> js_error + server" where
  "fire i s =
     (if i < length (timers s) then
        run_callback (fst (timers s ! i))
          (s\<lparr>timers := take i (timers s) @ drop (Suc i) (timers s)\<rparr>)
      else Inr s)"

datatype input =
    JoinRoom string string string
  | StartGame string string "int option"
  | SubmitGuess string string jsval
  | Fire nat
  | AiReply nat "nat option"
  | SearchReply nat "(string \<times> string) option list"

fun step :: "input \<Rightarrow> server \<Rightarrow> js_error + server" where
  "step (JoinRoom sid rid playerName) s = Inr (join_room sid rid playerName s)"
| "step (StartGame sid rid rounds) s = start_game sid rid rounds s"
| "step (SubmitGuess sid rid guess) s = submit_guess sid rid guess s"
| "step (Fire i) s = fire i s"
| "step (AiReply n k) s = Inr (ai_reply n k s)"
| "step (SearchReply n results) s = Inr (search_reply n results s)"

fun run :: "input list \<Rightarrow> server \<Rightarrow> js_error + server" where
  "run [] s = Inr s"
| "run (i # is) s = (case step i s of Inl e \<Rightarrow> Inl e | Inr s' \<Rightarrow> run is s')"

section \<open>Notions used in the statements\<close>

text \<open>A batch of guesses for one room, and the events that announce a round's winner.\<close>

definition guesses :: "string \<Rightarrow> (string \<times> jsval) list \<Rightarrow> input list" where
  "guesses rid gs = map (\<lambda>(sid, g). SubmitGuess sid rid g) gs"

fun winner_event :: "string \<Rightarrow> target \<times> event \<Rightarrow> bool" where
  "winner_event rid (ToRoom r, round_winner n c) = (r = rid)"
| "winner_event rid _ = False"

text \<open>What a failed start leaves behind: the room as it was, back in the lobby; one error
  event for the room; the pending timers as they were.\<close>

definition failed_start :: "string \<Rightarrow> room \<Rightarrow> server \<Rightarrow> server \<Rightarrow> bool" where
  "failed_start rid room s s' =
     (rooms s' rid = Some (room\<lparr>state := LOBBY\<rparr>)
      \<and> (\<exists>code. outbox s' = outbox s @ [(ToRoom rid, error_event code)])
      \<and> timers s' = timers s)"

subsection \<open>A sample game\<close>

text \<open>Ann has created room \<open>ROOM1\<close> and Bob has joined (\<open>lobby_demo\<close>). Ann starts
  a game of two rounds; the playlist request names three candidates, two of which are
  found. The start timer and the countdown fire: the first round is open, on
  \<open>Wonderwall\<close> (\<open>round_demo\<close>).\<close>

definition ann :: player where
  "ann = \<lparr>player_id = ''s1'', player_name = ''Ann'', score = 0\<rparr>"

definition bob :: player where
  "bob = \<lparr>player_id = ''s2'', player_name = ''Bob'', score = 0\<rparr>"

definition wonderwall :: song where
  "wonderwall = \<lparr>ref = 0, title = ''Wonderwall'', previewUrl = ''u1''\<rparr>"

definition hey_jude :: song where
  "hey_jude = \<lparr>ref = 1, title = ''Hey Jude'', previewUrl = ''u2''\<rparr>"

definition lobby_demo :: server where
  "lobby_demo =
     \<lparr>rooms = [''ROOM1'' \<mapsto> \<lparr>players = [ann, bob], state = LOBBY, currentRound = 0,
                  totalRounds = 10, currentSong = None, roundActive = False, songs = []\<rparr>],
      timers = [],
      outbox = [(ToSocket ''s1'', room_created), (ToRoom ''ROOM1'', player_joined [ann, bob]),
                (ToSocket ''s2'', room_joined)],
      loads = [], next_ref = 0\<rparr>"

definition opening_inputs :: "input list" where
  "opening_inputs = [StartGame ''s1'' ''ROOM1'' (Some 2), AiReply 0 (Some 3),
     SearchReply 0 [Some (''Wonderwall'', ''u1''), None, Some (''Hey Jude'', ''u2'')],
     Fire 1, Fire 1]"

definition room_demo :: room where
  "room_demo =
     \<lparr>players = [ann, bob], state = PLAYING, currentRound = 1, totalRounds = 2,
      currentSong = Some wonderwall, roundActive = True, songs = [wonderwall, hey_jude]\<rparr>"

definition round_demo :: server where
  "round_demo =
     \<lparr>rooms = [''ROOM1'' \<mapsto> room_demo],
      timers = [(AiTimeoutCb 0, 20000), (RoundTimeoutCb ''ROOM1'' wonderwall, 30000)],
      outbox = [(ToSocket ''s1'', room_created), (ToRoom ''ROOM1'', player_joined [ann, bob]),
                (ToSocket ''s2'', room_joined), (ToRoom ''ROOM1'', game_loading),
                (ToRoom ''ROOM1'', game_started 2), (ToRoom ''ROOM1'', start_countdown 3),
                (ToRoom ''ROOM1'', new_round 1 ''u1'')],
      loads = [\<lparr>load_room = ''ROOM1'', requestedRounds = 2, stage = Settled\<rparr>],
      next_ref = 2\<rparr>"

text \<open>The game while its playlist is requested (\<open>loading_demo\<close>) and while the songs are
  searched (\<open>searching_demo\<close>), and the first round after Bob's right guess (\<open>won_demo\<close>).\<close>

definition loading_room :: room where
  "loading_room =
     \<lparr>players = [ann, bob], state = LOADING, currentRound = 0, totalRounds = 10,
      currentSong = None, roundActive = False, songs = []\<rparr>"

definition loading_demo :: server where
  "loading_demo =
     \<lparr>rooms = [''ROOM1'' \<mapsto> loading_room],
      timers = [(AiTimeoutCb 0, 20000)],
      outbox = [(ToSocket ''s1'', room_created), (ToRoom ''ROOM1'', player_joined [ann, bob]),
                (ToSocket ''s2'', room_joined), (ToRoom ''ROOM1'', game_loading)],
      loads = [\<lparr>load_room = ''ROOM1'', requestedRounds = 2, stage = AwaitAi\<rparr>],
      next_ref = 0\<rparr>"

definition searching_demo :: server where
  "searching_demo =
     loading_demo\<lparr>loads := [\<lparr>load_room = ''ROOM1'', requestedRounds = 2, stage = AwaitSearch 3\<rparr>]\<rparr>"

definition won_room :: room where
  "won_room = room_demo\<lparr>roundActive := False, players := [ann, bob\<lparr>score := 1\<rparr>]\<rparr>"

definition won_demo :: server where
  "won_demo =
     round_demo\<lparr>rooms := [''ROOM1'' \<mapsto> won_room],
       timers := [(AiTimeoutCb 0, 20000), (RoundTimeoutCb ''ROOM1'' wonderwall, 30000),
                  (WinnerPauseCb ''ROOM1'', 5000)],
       outbox := outbox round_demo @
         [(ToRoom ''ROOM1'', update_scores [ann, bob\<lparr>score := 1\<rparr>]),
          (ToRoom ''ROOM1'', round_winner ''Bob'' wonderwall)]\<rparr>"

text \<open>The timers of the round scheduler of one room.\<close>

fun round_timer :: "string \<Rightarrow> callback \<times> nat \<Rightarrow> bool" where
  "round_timer rid (StartRoundCb r, ms) = (r = rid)"
| "round_timer rid (CountdownCb r, ms) = (r = rid)"
| "round_timer rid (RoundTimeoutCb r song, ms) = (r = rid)"
| "round_timer rid (WinnerPauseCb r, ms) = (r = rid)"
| "round_timer rid (AiTimeoutCb n, ms) = False"

definition round_timers :: "string \<Rightarrow> server \<Rightarrow> (callback \<times> nat) list" where
  "round_timers rid s = filter (round_timer rid) (timers s)"

text \<open>The pending timers that a step leaves pending: all of them, but the one that fires.\<close>

fun kept_timers :: "input \<Rightarrow> server \<Rightarrow> (callback \<times> nat) list" where
  "kept_timers (Fire k) s = take k (timers s) @ drop (Suc k) (timers s)"
| "kept_timers _ s = timers s"

subsection \<open>Rounds in the outbox\<close>

text \<open>The events of a room tell its rounds: \<^verbatim>\<open>new_round\<close> opens one, and
  \<^verbatim>\<open>round_winner\<close> and \<^verbatim>\<open>round_timeout\<close> are the two ways it can end. \<open>outcomes\<close>
  counts the two kinds of end per round, the latest round first; the last count is for the
  events before the first round.\<close>

fun bump :: "nat list \<Rightarrow> nat list" where
  "bump [] = []"
| "bump (n # ns) = Suc n # ns"

fun count_step :: "string \<Rightarrow> nat list \<Rightarrow> target \<times> event \<Rightarrow> nat list" where
  "count_step rid ns (ToRoom r, new_round k u) = (if r = rid then 0 # ns else ns)"
| "count_step rid ns (ToRoom r, round_winner n c) = (if r = rid then bump ns else ns)"
| "count_step rid ns (ToRoom r, round_timeout c) = (if r = rid then bump ns else ns)"
| "count_step rid ns _ = ns"

definition outcomes :: "string \<Rightarrow> (target \<times> event) list \<Rightarrow> nat list" where
  "outcomes rid evs = foldl (count_step rid) [0] evs"

text \<open>An event that neither opens nor ends a round.\<close>

fun plain_event :: "event \<Rightarrow> bool" where
  "plain_event (new_round k u) = False"
| "plain_event (round_winner n c) = False"
| "plain_event (round_timeout c) = False"
| "plain_event _ = True"

text \<open>Every round that was followed by another one ended in exactly one of the two ways.\<close>

definition resolved_once :: "string \<Rightarrow> (target \<times> event) list \<Rightarrow> bool" where
  "resolved_once rid evs = list_all (\<lambda>n. n = 1) (butlast (tl (outcomes rid evs)))"

text \<open>No round ended twice, and a round that is open has not ended.\<close>

definition rounds_ok :: "string \<Rightarrow> server \<Rightarrow> bool" where
  "rounds_ok rid s =
     (list_all (\<lambda>n. n \<le> 1) (outcomes rid (outbox s))
      \<and> (case rooms s rid of
            None \<Rightarrow> True
          | Some room \<Rightarrow> \<not> roundActive room \<or> take 1 (outcomes rid (outbox s)) = [0]))"

text \<open>The events that end the round of the song with identity \<open>r\<close> in room \<open>rid\<close>.\<close>

fun outcome_for :: "string \<Rightarrow> nat \<Rightarrow> target \<times> event \<Rightarrow> bool" where
  "outcome_for rid r (ToRoom x, round_winner n c) = (x = rid \<and> ref c = r)"
| "outcome_for rid r (ToRoom x, round_timeout c) = (x = rid \<and> ref c = r)"
| "outcome_for rid r _ = False"

text \<open>Songs are new objects when a playlist is built: their identities lie below the
  counter of the server and differ within a playlist, and the current song of a room is
  none of the songs still to be played.\<close>

definition upcoming :: "room \<Rightarrow> nat list" where
  "upcoming room = map ref (drop (currentRound room) (songs room))"

definition fresh_room :: "nat \<Rightarrow> room \<Rightarrow> bool" where
  "fresh_room k room =
     (distinct (map ref (songs room))
      \<and> list_all (\<lambda>x. ref x < k) (songs room)
      \<and> (case currentSong room of
            None \<Rightarrow> True
          | Some c \<Rightarrow> ref c < k \<and> ref c \<notin> set (upcoming room)))"

definition fresh_songs :: "server \<Rightarrow> bool" where
  "fresh_songs s = (\<forall>rid room. rooms s rid = Some room \<longrightarrow> fresh_room (next_ref s) room)"

text \<open>The song with identity \<open>r\<close> has had its round in room \<open>rid\<close>: it is not to be played
  again, and it is not the song of an open round.\<close>

definition spent :: "string \<Rightarrow> nat \<Rightarrow> server \<Rightarrow> bool" where
  "spent rid r s =
     (case rooms s rid of
        None \<Rightarrow> True
      | Some room \<Rightarrow>
          r < next_ref s \<and> r \<notin> set (upcoming room)
          \<and> \<not> (roundActive room \<and> (case currentSong room of None \<Rightarrow> False | Some c \<Rightarrow> ref c = r)))"

text \<open>The events sent so far that end the round of the song \<open>r\<close> in room \<open>rid\<close>.\<close>

definition ends :: "string \<Rightarrow> nat \<Rightarrow> server \<Rightarrow> (target \<times> event) list" where
  "ends rid r s = filter (outcome_for rid r) (outbox s)"

text \<open>The state of a server is consistent when its songs are new objects and every song
  whose round has been ended by an event is spent.\<close>

definition consistent :: "server \<Rightarrow> bool" where
  "consistent s = (fresh_songs s \<and> (\<forall>rid r. ends rid r s \<noteq> [] \<longrightarrow> spent rid r s))"

text \<open>The sample game goes on: a socket that is no player of the room sends the right
  title, and later Ann starts a new game, whose first round opens (\<open>restart_demo\<close>).\<close>

definition restart_inputs :: "input list" where
  "restart_inputs = [SubmitGuess ''s9'' ''ROOM1'' (JStr ''wonderwall''),
     StartGame ''s1'' ''ROOM1'' (Some 1), AiReply 1 (Some 1),
     SearchReply 1 [Some (''Yesterday'', ''u3'')], Fire 3, Fire 3]"

definition yesterday :: song where
  "yesterday = \<lparr>ref = 2, title = ''Yesterday'', previewUrl = ''u3''\<rparr>"

definition restart_demo :: server where
  "restart_demo =
     \<lparr>rooms = [''ROOM1'' \<mapsto>
         \<lparr>players = [ann, bob], state = PLAYING, currentRound = 1, totalRounds = 1,
          currentSong = Some yesterday, roundActive = True, songs = [yesterday]\<rparr>],
      timers = [(AiTimeoutCb 0, 20000), (RoundTimeoutCb ''ROOM1'' wonderwall, 30000),
                (AiTimeoutCb 1, 20000), (RoundTimeoutCb ''ROOM1'' yesterday, 30000)],
      outbox = outbox round_demo @
         [(ToRoom ''ROOM1'', game_loading), (ToRoom ''ROOM1'', game_started 1),
          (ToRoom ''ROOM1'', start_countdown 3), (ToRoom ''ROOM1'', new_round 1 ''u3'')],
      loads = [\<lparr>load_room = ''ROOM1'', requestedRounds = 2, stage = Settled\<rparr>,
               \<lparr>load_room = ''ROOM1'', requestedRounds = 1, stage = Settled\<rparr>],
      next_ref = 3\<rparr>"

text \<open>Another game in the same lobby: the request to start it arrives twice, and both
  requests get their playlist. Two start timers and two countdowns are then under way, and
  the second countdown opens a round while the round opened by the first is still open
  (\<open>twice_demo\<close>).\<close>

definition twice_inputs :: "input list" where
  "twice_inputs = [StartGame ''s1'' ''ROOM1'' (Some 2), StartGame ''s1'' ''ROOM1'' (Some 2),
     AiReply 0 (Some 2), AiReply 1 (Some 2),
     SearchReply 0 [Some (''Wonderwall'', ''u1''), Some (''Hey Jude'', ''u2'')],
     SearchReply 1 [Some (''Yesterday'', ''u3''), Some (''Creep'', ''u4'')],
     Fire 2, Fire 2, Fire 2, Fire 2]"

definition creep :: song where
  "creep = \<lparr>ref = 3, title = ''Creep'', previewUrl = ''u4''\<rparr>"

definition twice_demo :: server where
  "twice_demo =
     \<lparr>rooms = [''ROOM1'' \<mapsto>
         \<lparr>players = [ann, bob], state = PLAYING, currentRound = 2, totalRounds = 2,
          currentSong = Some creep, roundActive = True, songs = [yesterday, creep]\<rparr>],
      timers = [(AiTimeoutCb 0, 20000), (AiTimeoutCb 1, 20000),
                (RoundTimeoutCb ''ROOM1'' yesterday, 30000),
                (RoundTimeoutCb ''ROOM1'' creep, 30000)],
      outbox = outbox lobby_demo @
         [(ToRoom ''ROOM1'', game_loading), (ToRoom ''ROOM1'', game_loading),
          (ToRoom ''ROOM1'', game_started 2), (ToRoom ''ROOM1'', game_started 2),
          (ToRoom ''ROOM1'', start_countdown 3), (ToRoom ''ROOM1'', start_countdown 3),
          (ToRoom ''ROOM1'', new_round 1 ''u3''), (ToRoom ''ROOM1'', new_round 2 ''u4'')],
      loads = [\<lparr>load_room = ''ROOM1'', requestedRounds = 2, stage = Settled\<rparr>,
               \<lparr>load_room = ''ROOM1'', requestedRounds = 2, stage = Settled\<rparr>],
      next_ref = 4\<rparr>"

text \<open>The sample game played to its end: Bob wins the first round, the pause passes and
  the second round opens; the timer of the first round fires late, the second round times
  out, and the game is over.\<close>

definition regular_inputs :: "input list" where
  "regular_inputs = [SubmitGuess ''s2'' ''ROOM1'' (JStr ''wonderwal''), Fire 2, Fire 2,
     Fire 1, Fire 1, Fire 1]"

definition regular_demo :: server where
  "regular_demo =
     \<lparr>rooms = [''ROOM1'' \<mapsto>
         \<lparr>players = [ann, bob\<lparr>score := 1\<rparr>], state = ENDED, currentRound = 2, totalRounds = 2,
          currentSong = Some hey_jude, roundActive = False, songs = [wonderwall, hey_jude]\<rparr>],
      timers = [(AiTimeoutCb 0, 20000)],
      outbox = outbox won_demo @
         [(ToRoom ''ROOM1'', start_countdown 3), (ToRoom ''ROOM1'', new_round 2 ''u2''),
          (ToRoom ''ROOM1'', round_timeout hey_jude),
          (ToRoom ''ROOM1'', game_over [ann, bob\<lparr>score := 1\<rparr>])],
      loads = [\<lparr>load_room = ''ROOM1'', requestedRounds = 2, stage = Settled\<rparr>],
      next_ref = 2\<rparr>"

text \<open>A game of one song whose start request arrives twice.\<close>

definition twice_short_inputs :: "input list" where
  "twice_short_inputs = [StartGame ''s1'' ''ROOM1'' (Some 1), StartGame ''s1'' ''ROOM1'' (Some 1),
     AiReply 0 (Some 1), AiReply 1 (Some 1),
     SearchReply 0 [Some (''Wonderwall'', ''u1'')], SearchReply 1 [Some (''Yesterday'', ''u3'')],
     Fire 2, Fire 2, Fire 2, Fire 2]"
section \<open>Properties of the matcher\<close>

lemma distinct_finalTokens: "distinct (finalTokens s)"
  by (simp add: finalTokens_def getTokens_def rawTokens_def)

lemma overlapRatio_card:
  "overlapRatio g a =
     of_nat (card (set (finalTokens g) \<inter> set (finalTokens a))) /
     of_nat (card (set (finalTokens a)))"
proof -
  have "set (intersection g a) = set (finalTokens g) \<inter> set (finalTokens a)"
    by (auto simp: intersection_def)
  moreover have "distinct (intersection g a)"
    by (simp add: intersection_def distinct_finalTokens)
  ultimately have "length (intersection g a) = card (set (finalTokens g) \<inter> set (finalTokens a))"
    by (metis distinct_card)
  moreover have "length (finalTokens a) = card (set (finalTokens a))"
    by (simp add: distinct_card distinct_finalTokens)
  ultimately show ?thesis by (simp add: overlapRatio_def)
qed

lemma clean_Nil: "clean [] = []"
  by (simp add: clean_def toLowerCase_def remove_accents_def blank_punct_def trim_def)

lemma checkAnswer_strings:
  "checkAnswer (JStr guess) (JStr actual) =
     Inr (clean guess \<noteq> [] \<and> clean actual \<noteq> [] \<and>
          (clean guess = clean actual
           \<or> overlapRatio (clean guess) (clean actual) \<ge> 4 / 5
           \<or> similarity (clean guess) (clean actual) \<ge> 3 / 4))"
proof -
  have z: "\<not> length (finalTokens a) > 0 \<Longrightarrow> \<not> overlapRatio g a \<ge> 4 / 5" for g a
    by (simp add: overlapRatio_def)
  have c: "s = [] \<Longrightarrow> clean s = []" for s
    by (simp add: clean_Nil)
  show ?thesis
    using z [of "clean actual" "clean guess"] c [of guess] c [of actual]
    by (auto simp: checkAnswer_def tiers_def)
qed

lemma clean_earlier_Nil: "clean_earlier [] = []"
  by (simp add: clean_earlier_def toLowerCase_def blank_punct_def trim_def)

lemma checkAnswer_earlier_strings:
  "checkAnswer_earlier (JStr guess) (JStr actual) =
     Inr (clean_earlier guess \<noteq> [] \<and> clean_earlier actual \<noteq> [] \<and>
          tiers_earlier (clean_earlier guess) (clean_earlier actual))"
  using clean_earlier_Nil by (auto simp: checkAnswer_earlier_def)

subsection \<open>The tiers of the current matcher\<close>

text \<open>On two strings the current matcher accepts exactly when both normalise to a
  non-empty text and one of its three tiers holds: the cleaned texts are equal, or the
  number of tokens shared by guess and title divided by the number of tokens of the title
  is at least 0.8, or the edit-distance similarity is at least 0.75. No tier tests
  containment.\<close>

lemma checkAnswer_tiers:
  "checkAnswer (JStr guess) (JStr actual) =
     Inr (clean guess \<noteq> [] \<and> clean actual \<noteq> [] \<and>
          (clean guess = clean actual
           \<or> of_nat (card (set (finalTokens (clean guess)) \<inter> set (finalTokens (clean actual))))
               / of_nat (card (set (finalTokens (clean actual)))) \<ge> (4 / 5 :: rat)
           \<or> similarity (clean guess) (clean actual) \<ge> 3 / 4))"
  using checkAnswer_strings [of guess actual] overlapRatio_card [of "clean guess" "clean actual"]
  by simp

text \<open>The tokens counted are the words without the stop words, and all the words when
  only stop words are there: the article of the title does not count against a guess that
  leaves it out, and a title of stop words alone is still matched by its words in another
  order.\<close>

lemma significant_tokens:
  "finalTokens (clean ''The Beatles'') = [''beatles'']"
  "finalTokens (clean ''Love of the'') = [''love'']"
  "finalTokens (clean ''a the'') = [''a'', ''the'']"
  "checkAnswer (JStr ''Beatles'') (JStr ''The Beatles'') = Inr True"
  "checkAnswer (JStr ''The Beatles'') (JStr ''Beatles'') = Inr True"
  "checkAnswer (JStr ''Love'') (JStr ''Love of the'') = Inr True"
  "checkAnswer (JStr ''the a'') (JStr ''a the'') = Inr True"
  "checkAnswer (JStr ''Beatles'') (JStr ''The Rolling Stones'') = Inr False"
  "checkAnswer (JStr ''Stones'') (JStr ''The Rolling Stones'') = Inr False"
  "checkAnswer (JStr ''Rhapsody'') (JStr ''Bohemian Rhapsody'') = Inr False"
  by code_simp+

text \<open>Accents are removed before the comparison, in the current matcher only: the
  earlier one turns an accented letter into a blank.\<close>

lemma accents_removed:
  "clean [CHR ''H'', CHR 0xE9, CHR ''l'', CHR 0xE8, CHR ''n'', CHR ''e''] = ''helene''"
  "checkAnswer (JStr [CHR ''H'', CHR 0xE9, CHR ''l'', CHR 0xE8, CHR ''n'', CHR ''e''])
     (JStr ''Helene'') = Inr True"
  "checkAnswer (JStr [CHR ''c'', CHR ''a'', CHR ''f'', CHR 0xE9]) (JStr ''cafe'') = Inr True"
  "checkAnswer (JStr [CHR 0xE9]) (JStr ''e'') = Inr True"
  "checkAnswer (JStr [CHR ''D'', CHR 0xC9, CHR ''J'', CHR 0xC0, CHR '' '', CHR ''V'', CHR ''U''])
     (JStr ''Deja Vu'') = Inr True"
  "clean_earlier [CHR ''H'', CHR 0xE9, CHR ''l'', CHR 0xE8, CHR ''n'', CHR ''e''] = ''h l ne''"
  "checkAnswer_earlier (JStr [CHR ''H'', CHR 0xE9, CHR ''l'', CHR 0xE8, CHR ''n'', CHR ''e''])
     (JStr ''Helene'') = Inr False"
  by code_simp+

subsection \<open>Substrings\<close>

text \<open>
  \<^bold>\<open>C9.\<close> The guess \<open>Teen Spirit\<close> shares two of the four tokens of the title
  \<open>Smells Like Teen Spirit\<close>, an overlap of 0.5, and is to be rejected. The current
  matcher does reject it. The matcher in \<^verbatim>\<open>app/server/utils/checkAnswer.js\<close> accepts it:
  that function accepts every guess whose cleaned text is part of the cleaned title, before
  it counts any word, and its overlap tier divides by all the words of the title and
  accepts from 0.6 on. For this guess the substring tier alone decides: the overlap of
  the words is 0.5 and the similarity 11/23, both below the thresholds of that function.
\<close>

theorem substring_guess_accepted:
  "(clean_earlier guess \<noteq> [] \<and> includes_str (clean_earlier actual) (clean_earlier guess)
      \<longrightarrow> checkAnswer_earlier (JStr guess) (JStr actual) = Inr True)
   \<and> checkAnswer_earlier (JStr ''Teen Spirit'') (JStr ''Smells Like Teen Spirit'') = Inr True
   \<and> includes_str (clean_earlier ''Smells Like Teen Spirit'') (clean_earlier ''Teen Spirit'')
   \<and> (of_nat (length (common (clean_earlier ''Teen Spirit'')
          (clean_earlier ''Smells Like Teen Spirit'')))
        / of_nat (length (words (clean_earlier ''Smells Like Teen Spirit''))) :: rat) = 1 / 2
   \<and> similarity_earlier (clean_earlier ''Teen Spirit'')
        (clean_earlier ''Smells Like Teen Spirit'') = 11 / 23
   \<and> checkAnswer (JStr ''Teen Spirit'') (JStr ''Smells Like Teen Spirit'') = Inr False
   \<and> overlapRatio (clean ''Teen Spirit'') (clean ''Smells Like Teen Spirit'') = 1 / 2"
proof -
  have sub: "includes_str a g \<Longrightarrow> g \<noteq> [] \<Longrightarrow> a \<noteq> []" for a g
    by (cases a; cases g) auto
  have 1: "clean_earlier guess \<noteq> [] \<and> includes_str (clean_earlier actual) (clean_earlier guess)
      \<longrightarrow> checkAnswer_earlier (JStr guess) (JStr actual) = Inr True"
    using sub [of "clean_earlier actual" "clean_earlier guess"]
    by (auto simp: checkAnswer_earlier_strings tiers_earlier_def)
  have 2: "checkAnswer_earlier (JStr ''Teen Spirit'') (JStr ''Smells Like Teen Spirit'') = Inr True"
    by code_simp
  have 3: "includes_str (clean_earlier ''Smells Like Teen Spirit'') (clean_earlier ''Teen Spirit'')"
    by code_simp
  have 4: "(of_nat (length (common (clean_earlier ''Teen Spirit'')
          (clean_earlier ''Smells Like Teen Spirit'')))
        / of_nat (length (words (clean_earlier ''Smells Like Teen Spirit''))) :: rat) = 1 / 2"
    by code_simp
  have 5: "similarity_earlier (clean_earlier ''Teen Spirit'')
        (clean_earlier ''Smells Like Teen Spirit'') = 11 / 23"
    by code_simp
  have 6: "checkAnswer (JStr ''Teen Spirit'') (JStr ''Smells Like Teen Spirit'') = Inr False"
    by code_simp
  have 7: "overlapRatio (clean ''Teen Spirit'') (clean ''Smells Like Teen Spirit'') = 1 / 2"
    by code_simp
  from 1 2 3 4 5 6 7 show ?thesis by blast
qed

theorem substring_guess_accepted_witness:
  "checkAnswer_earlier (JStr ''Wonder'') (JStr ''Wonderwall'') = Inr True
   \<and> checkAnswer (JStr ''Wonder'') (JStr ''Wonderwall'') = Inr False"
proof -
  have c: "clean_earlier ''Wonder'' = ''wonder''" "clean_earlier ''Wonderwall'' = ''wonderwall''"
    by code_simp+
  have n: "checkAnswer (JStr ''Wonder'') (JStr ''Wonderwall'') = Inr False"
    by code_simp
  show ?thesis
    using substring_guess_accepted [of "''Wonder''" "''Wonderwall''"] n
    by (simp add: c)
qed

subsection \<open>Arguments that are not strings\<close>

text \<open>Both matchers return a boolean, without throwing, whenever an argument is falsy
  (the empty string, \<^verbatim>\<open>null\<close>, \<^verbatim>\<open>undefined\<close>, zero, \<^verbatim>\<open>NaN\<close>, \<^verbatim>\<open>false\<close>) and
  whenever both arguments are strings or \<^verbatim>\<open>String\<close> objects; the result is \<^verbatim>\<open>false\<close>
  when an argument is falsy or normalises to the empty text.\<close>

lemma checkAnswer_returns:
  "(\<not> truthy guess \<or> \<not> truthy actual \<longrightarrow>
      checkAnswer guess actual = Inr False \<and> checkAnswer_earlier guess actual = Inr False)
   \<and> (has_toLowerCase guess \<and> has_toLowerCase actual \<longrightarrow>
      (\<exists>b. checkAnswer guess actual = Inr b) \<and> (\<exists>b. checkAnswer_earlier guess actual = Inr b))
   \<and> (clean g = [] \<or> clean a = [] \<longrightarrow> checkAnswer (JStr g) (JStr a) = Inr False)
   \<and> (clean_earlier g = [] \<or> clean_earlier a = [] \<longrightarrow>
      checkAnswer_earlier (JStr g) (JStr a) = Inr False)"
proof -
  have 1: "\<not> truthy guess \<or> \<not> truthy actual \<longrightarrow>
      checkAnswer guess actual = Inr False \<and> checkAnswer_earlier guess actual = Inr False"
    by (simp add: checkAnswer_def checkAnswer_earlier_def)
  have 2: "has_toLowerCase guess \<and> has_toLowerCase actual \<longrightarrow>
      (\<exists>b. checkAnswer guess actual = Inr b) \<and> (\<exists>b. checkAnswer_earlier guess actual = Inr b)"
    by (cases guess; cases actual) (auto simp: checkAnswer_def checkAnswer_earlier_def)
  have 3: "clean g = [] \<or> clean a = [] \<longrightarrow> checkAnswer (JStr g) (JStr a) = Inr False"
    by (auto simp: checkAnswer_def)
  have 4: "clean_earlier g = [] \<or> clean_earlier a = [] \<longrightarrow>
      checkAnswer_earlier (JStr g) (JStr a) = Inr False"
    by (auto simp: checkAnswer_earlier_def)
  from 1 2 3 4 show ?thesis by blast
qed

lemma checkAnswer_returns_examples:
  "checkAnswer JNull (JStr ''Song'') = Inr False"
  "checkAnswer (JStr ''Song'') JUndefined = Inr False"
  "checkAnswer (JNum 0) (JStr ''Song'') = Inr False"
  "checkAnswer (JStr '' ( ) '') (JStr ''Song'') = Inr False"
  "checkAnswer (JStrObj ''Song'') (JStr ''Song'') = Inr True"
  "checkAnswer (JStrObj []) (JStr ''Song'') = Inr False"
  by code_simp+

lemma checkAnswer_throws:
  assumes "truthy guess" "truthy actual" "\<not> has_toLowerCase guess \<or> \<not> has_toLowerCase actual"
  shows "checkAnswer guess actual = Inl TypeError"
    and "checkAnswer_earlier guess actual = Inl TypeError"
  using assms
  by (cases guess; cases actual; simp add: checkAnswer_def checkAnswer_earlier_def)+
section \<open>Properties of the room server\<close>

lemma length_mk_songs [simp]: "length (mk_songs r xs) = length xs"
  by (induction r xs rule: mk_songs.induct) auto

lemmas srv_defs = emit_def setTimeout_def put_room_def set_stage_def

subsection \<open>The sample game\<close>

lemmas demo_defs = ann_def bob_def wonderwall_def hey_jude_def room_demo_def

lemma lobby_demo_created:
  "join_room ''s2'' ''ROOM1'' ''Bob'' (create_room ''s1'' ''Ann'' ''ROOM1'' empty_server) = lobby_demo"
  by (simp add: join_room_def create_room_def empty_server_def new_room_def lobby_demo_def
      srv_defs demo_defs)

lemma round_demo_reached: "run opening_inputs lobby_demo = Inr round_demo"
  by (simp add: opening_inputs_def lobby_demo_def round_demo_def start_game_def requested_def
      ai_reply_def search_reply_def validSongs_def slice0_def fire_def startRound_def
      countdown_done_def Let_def srv_defs demo_defs numeral_2_eq_2)

lemma round_demo_room: "rooms round_demo ''ROOM1'' = Some room_demo"
  by (simp add: round_demo_def)

lemma room_demo_open:
  "roundActive room_demo" "state room_demo = PLAYING" "currentSong room_demo = Some wonderwall"
  by (simp_all add: room_demo_def)

lemma wonderwall_guesses:
  "checkAnswer (JStr ''wonderwal'') (JStr (title wonderwall)) = Inr True"
  "checkAnswer (JStr ''yesterday'') (JStr (title wonderwall)) = Inr False"
  by code_simp+

lemma loading_demo_reached: "run (take 1 opening_inputs) lobby_demo = Inr loading_demo"
  by (simp add: opening_inputs_def lobby_demo_def loading_demo_def loading_room_def
      start_game_def requested_def Let_def srv_defs)

lemma searching_demo_reached: "run (take 2 opening_inputs) lobby_demo = Inr searching_demo"
  by (simp add: opening_inputs_def lobby_demo_def searching_demo_def loading_demo_def
      loading_room_def start_game_def requested_def ai_reply_def Let_def srv_defs numeral_2_eq_2)

lemma won_demo_reached:
  "submit_guess ''s2'' ''ROOM1'' (JStr ''wonderwal'') round_demo = Inr won_demo"
  using wonderwall_guesses(1)
  by (simp add: submit_guess_def round_demo_def won_demo_def won_room_def Let_def srv_defs
      room_demo_def ann_def bob_def)

lemma won_demo_room: "rooms won_demo ''ROOM1'' = Some won_room"
  by (simp add: won_demo_def)

lemma won_room_closed: "\<not> roundActive won_room" "state won_room = PLAYING"
  by (simp_all add: won_room_def room_demo_def)

subsection \<open>Guesses\<close>

lemma run_append:
  "run (xs @ ys) s = (case run xs s of Inl e \<Rightarrow> Inl e | Inr s' \<Rightarrow> run ys s')"
  by (induction xs arbitrary: s) (auto split: sum.splits)

lemma late_guesses_ignored:
  "rooms s rid = Some room \<Longrightarrow> \<not> roundActive room \<Longrightarrow> run (guesses rid later) s = Inr s"
  by (induction later) (auto simp: guesses_def submit_guess_def)

lemma rejected_guesses_notified:
  assumes "rooms s rid = Some room" "roundActive room" "state room = PLAYING"
    "currentSong room = Some cur"
    "\<forall>(sid', g) \<in> set before. checkAnswer g (JStr (title cur)) = Inr False"
  shows "run (guesses rid before) s =
           Inr (s\<lparr>outbox := outbox s @ map (\<lambda>(sid', g). (ToSocket sid', wrong_guess)) before\<rparr>)"
  using assms
proof (induction before arbitrary: s)
  case Nil
  then show ?case by (simp add: guesses_def)
next
  case (Cons a before)
  obtain sid' g where a: "a = (sid', g)" by (cases a)
  let ?s1 = "emit (ToSocket sid') wrong_guess s"
  have st: "submit_guess sid' rid g s = Inr ?s1"
    using Cons.prems a by (simp add: submit_guess_def)
  have "run (guesses rid before) ?s1 =
      Inr (?s1\<lparr>outbox := outbox ?s1 @ map (\<lambda>(sid', g). (ToSocket sid', wrong_guess)) before\<rparr>)"
    using Cons.prems by (intro Cons.IH) (auto simp: emit_def)
  then show ?case
    using st a by (simp add: guesses_def emit_def)
qed

lemma award_none: "find (\<lambda>p. player_id p = sid) ps = None \<Longrightarrow> award sid ps = ps"
  by (induction ps) (auto split: if_splits)

lemma award_first:
  "find (\<lambda>p. player_id p = sid) ps = Some p \<Longrightarrow>
   \<exists>i < length ps. ps ! i = p \<and> award sid ps = ps[i := p\<lparr>score := score p + 1\<rparr>]"
proof (induction ps)
  case Nil
  then show ?case by simp
next
  case (Cons q ps)
  show ?case
  proof (cases "player_id q = sid")
    case True
    with Cons.prems have "q = p" by simp
    with True show ?thesis by (intro exI [of _ 0]) simp
  next
    case False
    with Cons obtain i where "i < length ps" "ps ! i = p"
      "award sid ps = ps[i := p\<lparr>score := score p + 1\<rparr>]" by auto
    with False show ?thesis by (intro exI [of _ "Suc i"]) simp
  qed
qed

lemma winning_guess_step:
  assumes "rooms s rid = Some room" "roundActive room" "state room = PLAYING"
    "currentSong room = Some cur" "checkAnswer guess (JStr (title cur)) = Inr True"
  shows "\<exists>s'. submit_guess sid rid guess s = Inr s'
     \<and> rooms s' rid = Some (room\<lparr>roundActive := False, players := award sid (players room)\<rparr>)
     \<and> outbox s' = outbox s @
         (case find (\<lambda>p. player_id p = sid) (players room) of
            None \<Rightarrow> []
          | Some p \<Rightarrow> [(ToRoom rid, update_scores (award sid (players room))),
                       (ToRoom rid, round_winner (player_name p) cur)])
     \<and> timers s' = timers s @
         (case find (\<lambda>p. player_id p = sid) (players room) of
            None \<Rightarrow> []
          | Some p \<Rightarrow> [(WinnerPauseCb rid, 5000)])"
  using assms
  by (cases "find (\<lambda>p. player_id p = sid) (players room)")
     (auto simp: submit_guess_def Let_def srv_defs award_none)

text \<open>
  \<^bold>\<open>C1.\<close> While a round is open, guesses for the room are handled one after the other.
  Those the matcher rejects only send a notice to their sender. The first one it accepts
  closes the round and adds exactly one point to the score of its sender, the first player
  with the id of the socket (to nobody when the socket is not a player of the room); every
  guess handled after it for this round changes nothing and announces no winner.
\<close>

theorem first_accepted_guess_scores:
  assumes "rooms s rid = Some room" "roundActive room" "state room = PLAYING"
    "currentSong room = Some cur"
    and "\<forall>(sid', g) \<in> set before. checkAnswer g (JStr (title cur)) = Inr False"
    and "checkAnswer guess (JStr (title cur)) = Inr True"
  shows "\<exists>s'. run (guesses rid before @ [SubmitGuess sid rid guess] @ guesses rid later) s = Inr s'
     \<and> rooms s' rid = Some (room\<lparr>roundActive := False, players := award sid (players room)\<rparr>)
     \<and> filter (winner_event rid) (outbox s') = filter (winner_event rid) (outbox s) @
         (case find (\<lambda>p. player_id p = sid) (players room) of
            None \<Rightarrow> []
          | Some p \<Rightarrow> [(ToRoom rid, round_winner (player_name p) cur)])
     \<and> (case find (\<lambda>p. player_id p = sid) (players room) of
          None \<Rightarrow> award sid (players room) = players room
        | Some p \<Rightarrow> \<exists>i < length (players room). players room ! i = p
            \<and> award sid (players room) = (players room)[i := p\<lparr>score := score p + 1\<rparr>])"
proof -
  let ?s1 = "s\<lparr>outbox := outbox s @ map (\<lambda>(sid', g). (ToSocket sid', wrong_guess)) before\<rparr>"
  have r1: "run (guesses rid before) s = Inr ?s1"
    using assms by (intro rejected_guesses_notified) auto
  have "rooms ?s1 rid = Some room" using assms by simp
  from winning_guess_step [OF this assms(2,3,4,6), of sid]
  obtain s2 where s2: "submit_guess sid rid guess ?s1 = Inr s2"
    "rooms s2 rid = Some (room\<lparr>roundActive := False, players := award sid (players room)\<rparr>)"
    "outbox s2 = outbox ?s1 @
         (case find (\<lambda>p. player_id p = sid) (players room) of
            None \<Rightarrow> []
          | Some p \<Rightarrow> [(ToRoom rid, update_scores (award sid (players room))),
                       (ToRoom rid, round_winner (player_name p) cur)])"
    by blast
  have r3: "run (guesses rid later) s2 = Inr s2"
    using s2(2) by (intro late_guesses_ignored) auto
  have nw: "filter (winner_event rid) (map (\<lambda>(sid', g). (ToSocket sid', wrong_guess)) before) = []"
    by (induction before) auto
  have run: "run (guesses rid before @ [SubmitGuess sid rid guess] @ guesses rid later) s = Inr s2"
    using r1 s2(1) r3 by (simp add: run_append)
  have ob: "filter (winner_event rid) (outbox s2) = filter (winner_event rid) (outbox s) @
         (case find (\<lambda>p. player_id p = sid) (players room) of
            None \<Rightarrow> []
          | Some p \<Rightarrow> [(ToRoom rid, round_winner (player_name p) cur)])"
    using s2(3) nw by (simp split: option.splits)
  have aw: "(case find (\<lambda>p. player_id p = sid) (players room) of
          None \<Rightarrow> award sid (players room) = players room
        | Some p \<Rightarrow> \<exists>i < length (players room). players room ! i = p
            \<and> award sid (players room) = (players room)[i := p\<lparr>score := score p + 1\<rparr>])"
    using award_none [of sid "players room"] award_first [of sid "players room"]
    by (simp split: option.splits)
  from run s2(2) ob aw show ?thesis by blast
qed


theorem first_accepted_guess_scores_witness:
  "\<exists>s'. run (guesses ''ROOM1'' [(''s1'', JStr ''yesterday'')] @
             [SubmitGuess ''s2'' ''ROOM1'' (JStr ''wonderwal'')] @
             guesses ''ROOM1'' [(''s1'', JStr ''wonderwal'')]) round_demo = Inr s'
     \<and> (\<exists>r. rooms s' ''ROOM1'' = Some r \<and> map score (players r) = [0, 1] \<and> \<not> roundActive r)
     \<and> filter (winner_event ''ROOM1'') (outbox s') =
         [(ToRoom ''ROOM1'', round_winner ''Bob'' wonderwall)]"
proof -
  have rej: "\<forall>(sid', g) \<in> set [(''s1'', JStr ''yesterday'')].
      checkAnswer g (JStr (title wonderwall)) = Inr False"
    by (simp add: wonderwall_guesses)
  have fnd: "find (\<lambda>p. player_id p = ''s2'') (players room_demo) = Some bob"
    by (simp add: demo_defs)
  have old: "filter (winner_event ''ROOM1'') (outbox round_demo) = []"
    by (simp add: round_demo_def)
  from first_accepted_guess_scores [OF round_demo_room room_demo_open rej wonderwall_guesses(1),
      of "''s2''" "[(''s1'', JStr ''wonderwal'')]"]
  obtain s' where run: "run (guesses ''ROOM1'' [(''s1'', JStr ''yesterday'')] @
             [SubmitGuess ''s2'' ''ROOM1'' (JStr ''wonderwal'')] @
             guesses ''ROOM1'' [(''s1'', JStr ''wonderwal'')]) round_demo = Inr s'"
    and room: "rooms s' ''ROOM1'' =
         Some (room_demo\<lparr>roundActive := False, players := award ''s2'' (players room_demo)\<rparr>)"
    and win: "filter (winner_event ''ROOM1'') (outbox s') =
         filter (winner_event ''ROOM1'') (outbox round_demo) @
         (case find (\<lambda>p. player_id p = ''s2'') (players room_demo) of
            None \<Rightarrow> []
          | Some p \<Rightarrow> [(ToRoom ''ROOM1'', round_winner (player_name p) wonderwall)])"
    by blast
  have "map score (award ''s2'' (players room_demo)) = [0, 1]"
    by (simp add: demo_defs)
  with run room win fnd old show ?thesis
    by (simp add: bob_def)
qed

subsection \<open>At most one end per round\<close>

lemma outcomes_snoc: "outcomes rid (evs @ es) = foldl (count_step rid) (outcomes rid evs) es"
  by (simp add: outcomes_def)

lemma rounds_ok_timers [simp]: "rounds_ok rid (s\<lparr>timers := ts\<rparr>) = rounds_ok rid s"
  by (simp add: rounds_ok_def split: option.splits)

lemma rounds_ok_setTimeout [simp]: "rounds_ok rid (setTimeout cb ms s) = rounds_ok rid s"
  by (simp add: rounds_ok_def setTimeout_def split: option.splits)

lemma rounds_ok_set_stage [simp]: "rounds_ok rid (set_stage n st s) = rounds_ok rid s"
  by (simp add: rounds_ok_def set_stage_def split: option.splits)

lemma rounds_ok_next_ref [simp]: "rounds_ok rid (s\<lparr>next_ref := k\<rparr>) = rounds_ok rid s"
  by (simp add: rounds_ok_def split: option.splits)

lemma count_step_plain: "plain_event e \<Longrightarrow> count_step rid ns (t, e) = ns"
  by (cases t; cases e) auto

lemma count_step_socket [simp]: "count_step rid ns (ToSocket x, e) = ns"
  by (cases e) auto

lemma rounds_ok_emit_plain:
  "plain_event e \<Longrightarrow> rounds_ok rid (emit t e s) = rounds_ok rid s"
  by (simp add: rounds_ok_def emit_def outcomes_snoc count_step_plain split: option.splits)

lemma rounds_ok_emit_socket [simp]: "rounds_ok rid (emit (ToSocket x) e s) = rounds_ok rid s"
  by (simp add: rounds_ok_def emit_def outcomes_snoc split: option.splits)

lemma rounds_ok_put_room:
  "rooms s x = Some room \<Longrightarrow> roundActive room' = roundActive room \<Longrightarrow>
   rounds_ok rid (put_room x room' s) = rounds_ok rid s"
  by (auto simp: rounds_ok_def put_room_def split: option.splits)

lemma rounds_ok_close:
  "rooms s x = Some room \<Longrightarrow> \<not> roundActive room' \<Longrightarrow> rounds_ok rid s \<Longrightarrow>
   rounds_ok rid (put_room x room' s)"
  by (auto simp: rounds_ok_def put_room_def split: option.splits)

lemma rounds_ok_join_room: "rounds_ok rid s \<Longrightarrow> rounds_ok rid (join_room sid x n s)"
  by (auto simp: join_room_def Let_def rounds_ok_emit_plain rounds_ok_put_room split: option.splits)

lemma rounds_ok_start_game:
  "rounds_ok rid s \<Longrightarrow> start_game sid x rounds s = Inr s' \<Longrightarrow> rounds_ok rid s'"
proof -
  have [simp]: "rounds_ok rid (s\<lparr>loads := l\<rparr>) = rounds_ok rid s" for s l
    by (simp add: rounds_ok_def split: option.splits)
  show "rounds_ok rid s \<Longrightarrow> start_game sid x rounds s = Inr s' \<Longrightarrow> rounds_ok rid s'"
    by (auto simp: start_game_def Let_def rounds_ok_emit_plain rounds_ok_put_room
        split: option.splits if_splits)
qed

lemma rounds_ok_start_failed: "rounds_ok rid s \<Longrightarrow> rounds_ok rid (start_failed x code s)"
  by (auto simp: start_failed_def rounds_ok_emit_plain rounds_ok_put_room split: option.splits)

lemma rounds_ok_ai:
  "rounds_ok rid s \<Longrightarrow> rounds_ok rid (ai_reply n k s)"
  "rounds_ok rid s \<Longrightarrow> rounds_ok rid (ai_timeout n s)"
  by (auto simp: ai_reply_def ai_timeout_def rounds_ok_start_failed split: option.splits nat.splits)

lemma rooms_set_stage [simp]: "rooms (set_stage n st s) = rooms s"
  by (simp add: set_stage_def)

lemma rounds_ok_search_reply: "rounds_ok rid s \<Longrightarrow> rounds_ok rid (search_reply n results s)"
  by (auto simp: search_reply_def Let_def rounds_ok_start_failed rounds_ok_emit_plain
      rounds_ok_put_room split: option.splits)

lemma rounds_ok_endGameInternal: "rounds_ok rid s \<Longrightarrow> rounds_ok rid (endGameInternal x s)"
  by (auto simp: endGameInternal_def rounds_ok_emit_plain rounds_ok_put_room split: option.splits)

lemma rounds_ok_startRound:
  "rounds_ok rid s \<Longrightarrow> startRound x s = Inr s' \<Longrightarrow> rounds_ok rid s'"
  by (auto simp: startRound_def rounds_ok_endGameInternal rounds_ok_emit_plain
      split: option.splits if_splits)

lemma rounds_ok_countdown_done:
  "rounds_ok rid s \<Longrightarrow> countdown_done x s = Inr s' \<Longrightarrow> rounds_ok rid s'"
  by (auto simp: countdown_done_def Let_def rounds_ok_def srv_defs outcomes_snoc
      split: option.splits if_splits)

lemma bump_ok:
  "list_all (\<lambda>n. n \<le> Suc 0) ns \<Longrightarrow> take (Suc 0) ns = [0] \<Longrightarrow>
   list_all (\<lambda>n. n \<le> Suc 0) (bump ns)"
  by (cases ns) auto

lemma rounds_ok_round_timed_out:
  "rounds_ok rid s \<Longrightarrow> round_timed_out x song s = Inr s' \<Longrightarrow> rounds_ok rid s'"
  by (auto simp: round_timed_out_def rounds_ok_def srv_defs outcomes_snoc bump_ok
      split: option.splits if_splits)

lemma rounds_ok_submit_guess:
  "rounds_ok rid s \<Longrightarrow> submit_guess sid x guess s = Inr s' \<Longrightarrow> rounds_ok rid s'"
  by (auto simp: submit_guess_def Let_def rounds_ok_def srv_defs outcomes_snoc bump_ok
      split: option.splits if_splits sum.splits bool.splits)

lemma rounds_ok_callback:
  assumes "rounds_ok rid s" "run_callback cb s = Inr s'"
  shows "rounds_ok rid s'"
proof (cases cb)
  case (StartRoundCb x)
  with assms show ?thesis using rounds_ok_startRound [of rid s x s'] by simp
next
  case (CountdownCb x)
  with assms show ?thesis using rounds_ok_countdown_done [of rid s x s'] by simp
next
  case (RoundTimeoutCb x song)
  with assms show ?thesis using rounds_ok_round_timed_out [of rid s x song s'] by simp
next
  case (WinnerPauseCb x)
  with assms show ?thesis
    using rounds_ok_startRound [of rid s x s'] rounds_ok_endGameInternal [of rid s x]
    by (auto simp: winner_pause_done_def split: option.splits if_splits)
next
  case (AiTimeoutCb n)
  with assms show ?thesis using rounds_ok_ai(2) [of rid s n] by auto
qed

lemma rounds_ok_step:
  assumes "rounds_ok rid s" "step i s = Inr s'"
  shows "rounds_ok rid s'"
proof (cases i)
  case (JoinRoom sid x n)
  with assms show ?thesis using rounds_ok_join_room [of rid s sid x n] by auto
next
  case (StartGame sid x rounds)
  with assms show ?thesis using rounds_ok_start_game [of rid s sid x rounds s'] by auto
next
  case (SubmitGuess sid x g)
  with assms show ?thesis using rounds_ok_submit_guess [of rid s sid x g s'] by auto
next
  case (Fire k)
  with assms show ?thesis
    using rounds_ok_callback [of rid "s\<lparr>timers := take k (timers s) @ drop (Suc k) (timers s)\<rparr>"
        "fst (timers s ! k)" s']
    by (auto simp: fire_def split: if_splits)
next
  case (AiReply n k)
  with assms show ?thesis using rounds_ok_ai(1) [of rid s n k] by auto
next
  case (SearchReply n results)
  with assms show ?thesis using rounds_ok_search_reply [of rid s n results] by auto
qed

lemma rounds_ok_run: "rounds_ok rid s \<Longrightarrow> run is s = Inr s' \<Longrightarrow> rounds_ok rid s'"
proof (induction "is" arbitrary: s)
  case Nil
  then show ?case by simp
next
  case (Cons i "is")
  then show ?case by (auto split: sum.splits dest: rounds_ok_step)
qed


subsection \<open>A song has its round once\<close>

lemma ref_mk_songs: "x \<in> set (mk_songs k xs) \<Longrightarrow> k \<le> ref x \<and> ref x < k + length xs"
proof (induction k xs rule: mk_songs.induct)
  case (1 r)
  then show ?case by simp
next
  case (2 r t u xs)
  show ?case
  proof (cases "x = \<lparr>ref = r, title = t, previewUrl = u\<rparr>")
    case True
    then show ?thesis by simp
  next
    case False
    with 2 have "Suc r \<le> ref x \<and> ref x < Suc r + length xs" by simp
    then show ?thesis by simp
  qed
qed

lemma distinct_mk_songs: "distinct (map ref (mk_songs k xs))"
proof (induction k xs rule: mk_songs.induct)
  case (1 r)
  then show ?case by simp
next
  case (2 r t u xs)
  have "r \<notin> ref ` set (mk_songs (Suc r) xs)"
    using ref_mk_songs [of _ "Suc r" xs] by force
  with 2 show ?case by simp
qed

lemma set_slice0: "x \<in> set (slice0 n xs) \<Longrightarrow> x \<in> set xs"
  by (auto simp: slice0_def dest: in_set_takeD)

lemma distinct_slice0: "distinct (map f xs) \<Longrightarrow> distinct (map f (slice0 n xs))"
  by (simp add: slice0_def take_map [symmetric])

lemma upcoming_next:
  "currentRound room < length (songs room) \<Longrightarrow>
   upcoming room = ref (songs room ! currentRound room) #
     upcoming (room\<lparr>currentSong := c, roundActive := b, currentRound := Suc (currentRound room)\<rparr>)"
  by (simp add: upcoming_def Cons_nth_drop_Suc [symmetric])

lemma spent_frame [simp]:
  "spent rid r (emit t e s) = spent rid r s"
  "spent rid r (setTimeout cb ms s) = spent rid r s"
  "spent rid r (set_stage n st s) = spent rid r s"
  "spent rid r (s\<lparr>timers := ts\<rparr>) = spent rid r s"
  "spent rid r (s\<lparr>loads := l\<rparr>) = spent rid r s"
  by (simp_all add: spent_def srv_defs split: option.splits)

lemma ends_frame [simp]:
  "ends rid r (put_room x room s) = ends rid r s"
  "ends rid r (setTimeout cb ms s) = ends rid r s"
  "ends rid r (set_stage n st s) = ends rid r s"
  "ends rid r (s\<lparr>timers := ts\<rparr>) = ends rid r s"
  "ends rid r (s\<lparr>loads := l\<rparr>) = ends rid r s"
  "ends rid r (s\<lparr>next_ref := k\<rparr>) = ends rid r s"
  by (simp_all add: ends_def srv_defs)

lemma outcome_for_plain: "plain_event e \<Longrightarrow> \<not> outcome_for rid r (t, e)"
  by (cases t; cases e) auto

lemma ends_emit_plain: "plain_event e \<Longrightarrow> ends rid r (emit t e s) = ends rid r s"
  by (simp add: ends_def emit_def outcome_for_plain)

lemma ends_emit_other:
  "\<not> outcome_for rid r (t, e) \<Longrightarrow> ends rid r (emit t e s) = ends rid r s"
  by (simp add: ends_def emit_def)

lemma spent_other_room:
  "x \<noteq> rid \<Longrightarrow> spent rid r (put_room x room s) = spent rid r s"
  by (simp add: spent_def put_room_def split: option.splits)

lemma spent_put_room:
  assumes "rooms s x = Some room" "upcoming room' = upcoming room"
    "roundActive room' \<longrightarrow> roundActive room \<and> currentSong room' = currentSong room"
    "spent rid r s"
  shows "spent rid r (put_room x room' s)"
  using assms by (auto simp: spent_def put_room_def split: option.splits)

lemma spent_open_round:
  assumes "rooms s x = Some room" "currentRound room < length (songs room)" "spent rid r s"
  shows "spent rid r (put_room x (room\<lparr>currentSong := Some (songs room ! currentRound room),
           roundActive := True, currentRound := Suc (currentRound room)\<rparr>) s)"
proof (cases "x = rid")
  case True
  with assms have "r < next_ref s" "r \<notin> set (upcoming room)"
    by (simp_all add: spent_def)
  with upcoming_next [OF assms(2), where c = "Some (songs room ! currentRound room)" and b = True] True
  show ?thesis by (simp add: spent_def put_room_def)
next
  case False
  with assms show ?thesis by (simp add: spent_other_room)
qed

lemma spent_new_playlist:
  assumes "rooms s x = Some room" "spent rid r s" "\<forall>c \<in> set pl. next_ref s \<le> ref c"
    "next_ref s \<le> k"
  shows "spent rid r (put_room x (room\<lparr>songs := pl, totalRounds := n, currentRound := 0,
           state := PLAYING\<rparr>) (s\<lparr>next_ref := k\<rparr>))"
proof (cases "x = rid")
  case True
  with assms have "r < next_ref s"
    "\<not> (roundActive room \<and> (case currentSong room of None \<Rightarrow> False | Some c \<Rightarrow> ref c = r))"
    by (simp_all add: spent_def)
  moreover from this assms(3) have "r \<notin> set (map ref pl)" by auto
  ultimately show ?thesis using True assms(4) by (simp add: spent_def put_room_def upcoming_def)
next
  case False
  with assms show ?thesis
    by (auto simp: spent_def put_room_def split: option.splits)
qed

lemma spent_next_ref: "spent rid r s \<Longrightarrow> next_ref s \<le> k \<Longrightarrow> spent rid r (s\<lparr>next_ref := k\<rparr>)"
  by (auto simp: spent_def split: option.splits)

lemma spent_join_room:
  "spent rid r s \<Longrightarrow>
   spent rid r (join_room sid x n s) \<and> ends rid r (join_room sid x n s) = ends rid r s"
  by (auto simp: join_room_def Let_def ends_emit_plain upcoming_def intro!: spent_put_room
      split: option.splits)

lemma spent_start_game:
  "spent rid r s \<Longrightarrow> start_game sid x rounds s = Inr s' \<Longrightarrow>
   spent rid r s' \<and> ends rid r s' = ends rid r s"
  by (auto simp: start_game_def Let_def ends_emit_plain upcoming_def intro!: spent_put_room
      split: option.splits if_splits)

lemma spent_start_failed:
  "spent rid r s \<Longrightarrow>
   spent rid r (start_failed x code s) \<and> ends rid r (start_failed x code s) = ends rid r s"
  by (auto simp: start_failed_def ends_emit_plain upcoming_def intro!: spent_put_room
      split: option.splits)

lemma spent_ai:
  "spent rid r s \<Longrightarrow> spent rid r (ai_reply n k s) \<and> ends rid r (ai_reply n k s) = ends rid r s"
  "spent rid r s \<Longrightarrow> spent rid r (ai_timeout n s) \<and> ends rid r (ai_timeout n s) = ends rid r s"
  using spent_start_failed [of rid r "set_stage n Settled s"]
  by (auto simp: ai_reply_def ai_timeout_def split: option.splits nat.splits)

lemma spent_endGameInternal:
  "spent rid r s \<Longrightarrow>
   spent rid r (endGameInternal x s) \<and> ends rid r (endGameInternal x s) = ends rid r s"
  by (auto simp: endGameInternal_def ends_emit_plain upcoming_def intro!: spent_put_room
      split: option.splits)

lemma spent_startRound:
  "spent rid r s \<Longrightarrow> startRound x s = Inr s' \<Longrightarrow> spent rid r s' \<and> ends rid r s' = ends rid r s"
  using spent_endGameInternal [of rid r s x]
  by (auto simp: startRound_def ends_emit_plain split: option.splits if_splits)

lemma spent_countdown_done:
  "spent rid r s \<Longrightarrow> countdown_done x s = Inr s' \<Longrightarrow> spent rid r s' \<and> ends rid r s' = ends rid r s"
  by (auto simp: countdown_done_def Let_def ends_emit_other spent_open_round
      split: option.splits if_splits)

lemma spent_current:
  "spent rid r s \<Longrightarrow> rooms s rid = Some room \<Longrightarrow> roundActive room \<Longrightarrow>
   currentSong room = Some c \<Longrightarrow> ref c \<noteq> r"
  by (auto simp: spent_def)

lemma spent_round_timed_out:
  assumes "spent rid r s" "round_timed_out x song s = Inr s'"
  shows "spent rid r s' \<and> ends rid r s' = ends rid r s"
proof (cases "rooms s x")
  case None
  with assms show ?thesis by (simp add: round_timed_out_def)
next
  case (Some room)
  show ?thesis
  proof (cases "roundActive room \<and> same_song (currentSong room) song")
    case True
    then obtain c where c: "currentSong room = Some c" "ref c = ref song"
      by (auto simp: same_song_def split: option.splits)
    have "\<not> outcome_for rid r (ToRoom x, round_timeout song)"
      using spent_current [OF assms(1), of room c] Some True c by auto
    moreover have "spent rid r (put_room x (room\<lparr>roundActive := False\<rparr>) s)"
      using assms(1) Some by (intro spent_put_room) (auto simp: upcoming_def)
    ultimately show ?thesis
      using assms(2) Some True by (auto simp: round_timed_out_def ends_emit_other)
  next
    case False
    with assms Some show ?thesis by (auto simp: round_timed_out_def)
  qed
qed

lemma spent_submit_guess:
  assumes "spent rid r s" "submit_guess sid x guess s = Inr s'"
  shows "spent rid r s' \<and> ends rid r s' = ends rid r s"
proof (cases "rooms s x")
  case None
  with assms show ?thesis by (simp add: submit_guess_def)
next
  case (Some room)
  show ?thesis
  proof (cases "\<not> roundActive room \<or> state room \<noteq> PLAYING")
    case True
    with assms Some show ?thesis by (auto simp: submit_guess_def)
  next
    case False
    with assms(2) Some obtain c where c: "currentSong room = Some c"
      by (auto simp: submit_guess_def split: option.splits)
    from assms(2) Some False c obtain b where b: "checkAnswer guess (JStr (title c)) = Inr b"
      by (auto simp: submit_guess_def split: sum.splits)
    have no: "\<not> outcome_for rid r (ToRoom x, round_winner n c)" for n
      using spent_current [OF assms(1), of room c] Some False c by auto
    have sp: "spent rid r (put_room x (room\<lparr>roundActive := False, players := ps\<rparr>) s)" for ps
      using assms(1) Some by (intro spent_put_room) (auto simp: upcoming_def)
    have sp': "spent rid r (put_room x (room\<lparr>roundActive := False\<rparr>) s)"
      using assms(1) Some by (intro spent_put_room) (auto simp: upcoming_def)
    show ?thesis
      using assms Some False c b no sp sp'
      by (cases b; cases "find (\<lambda>p. player_id p = sid) (players room)")
         (auto simp: submit_guess_def Let_def ends_emit_other ends_emit_plain)
  qed
qed

lemma spent_search_reply:
  assumes "spent rid r s"
  shows "spent rid r (search_reply n results s)
         \<and> ends rid r (search_reply n results s) = ends rid r s"
proof (cases "n < length (loads s) \<and> stage (loads s ! n) = AwaitSearch (length results)")
  case False
  with assms show ?thesis by (auto simp: search_reply_def)
next
  case True
  let ?found = "mk_songs (next_ref s) (validSongs results)"
  let ?pl = "slice0 (requestedRounds (loads s ! n)) ?found"
  let ?s1 = "(set_stage n Settled s)\<lparr>next_ref := next_ref s + length ?found\<rparr>"
  let ?x = "load_room (loads s ! n)"
  have s1: "spent rid r ?s1" using assms by (intro spent_next_ref) (auto simp: set_stage_def)
  have e1: "ends rid r ?s1 = ends rid r s" by simp
  have fresh: "\<forall>c \<in> set ?pl. next_ref (set_stage n Settled s) \<le> ref c"
    using ref_mk_songs [of _ "next_ref s" "validSongs results"]
    by (auto simp: set_stage_def dest!: set_slice0)
  show ?thesis
  proof (cases "length ?pl = 0")
    case True
    with \<open>n < length (loads s) \<and> _\<close> show ?thesis
      using spent_start_failed [OF s1, of ?x "''GENERATION_FAILED''"] e1
      by (simp add: search_reply_def Let_def)
  next
    case False
    show ?thesis
    proof (cases "rooms s ?x")
      case None
      with False \<open>n < length (loads s) \<and> _\<close> s1 e1 show ?thesis
        by (simp add: search_reply_def Let_def)
    next
      case (Some room)
      have "spent rid r (put_room ?x (room\<lparr>songs := ?pl, totalRounds := length ?pl,
              currentRound := 0, state := PLAYING\<rparr>)
              ((set_stage n Settled s)\<lparr>next_ref := next_ref s + length ?found\<rparr>))"
        using Some assms fresh by (intro spent_new_playlist) (auto simp: set_stage_def)
      with False \<open>n < length (loads s) \<and> _\<close> Some show ?thesis
        by (simp add: search_reply_def Let_def ends_emit_plain)
    qed
  qed
qed


lemma spent_callback:
  assumes "spent rid r s" "run_callback cb s = Inr s'"
  shows "spent rid r s' \<and> ends rid r s' = ends rid r s"
proof (cases cb)
  case (StartRoundCb x)
  with assms show ?thesis using spent_startRound [of rid r s x s'] by simp
next
  case (CountdownCb x)
  with assms show ?thesis using spent_countdown_done [of rid r s x s'] by simp
next
  case (RoundTimeoutCb x song)
  with assms show ?thesis using spent_round_timed_out [of rid r s x song s'] by simp
next
  case (WinnerPauseCb x)
  with assms show ?thesis
    using spent_startRound [of rid r s x s'] spent_endGameInternal [of rid r s x]
    by (auto simp: winner_pause_done_def split: option.splits if_splits)
next
  case (AiTimeoutCb n)
  with assms show ?thesis using spent_ai(2) [of rid r s n] by auto
qed

lemma spent_step:
  assumes "spent rid r s" "step i s = Inr s'"
  shows "spent rid r s' \<and> ends rid r s' = ends rid r s"
proof (cases i)
  case (JoinRoom sid x n)
  with assms show ?thesis using spent_join_room [of rid r s sid x n] by auto
next
  case (StartGame sid x rounds)
  with assms show ?thesis using spent_start_game [of rid r s sid x rounds s'] by auto
next
  case (SubmitGuess sid x g)
  with assms show ?thesis using spent_submit_guess [of rid r s sid x g s'] by auto
next
  case (Fire k)
  with assms show ?thesis
    using spent_callback [of rid r "s\<lparr>timers := take k (timers s) @ drop (Suc k) (timers s)\<rparr>"
        "fst (timers s ! k)" s']
    by (auto simp: fire_def split: if_splits)
next
  case (AiReply n k)
  with assms show ?thesis using spent_ai(1) [of rid r s n k] by auto
next
  case (SearchReply n results)
  with assms show ?thesis using spent_search_reply [of rid r s n results] by auto
qed

lemma spent_run:
  "spent rid r s \<Longrightarrow> run is s = Inr s' \<Longrightarrow> spent rid r s' \<and> ends rid r s' = ends rid r s"
proof (induction "is" arbitrary: s)
  case Nil
  then show ?case by simp
next
  case (Cons i "is")
  from Cons.prems obtain s1 where s1: "step i s = Inr s1" "run is s1 = Inr s'"
    by (auto split: sum.splits)
  from spent_step [OF Cons.prems(1) s1(1)] Cons.IH [OF _ s1(2)] show ?case by simp
qed

subsection \<open>New songs are new objects\<close>

lemma fresh_room_mono: "fresh_room k room \<Longrightarrow> k \<le> k' \<Longrightarrow> fresh_room k' room"
  by (auto simp: fresh_room_def list_all_iff split: option.splits)

lemma fresh_frame [simp]:
  "fresh_songs (emit t e s) = fresh_songs s"
  "fresh_songs (setTimeout cb ms s) = fresh_songs s"
  "fresh_songs (set_stage n st s) = fresh_songs s"
  "fresh_songs (s\<lparr>timers := ts\<rparr>) = fresh_songs s"
  "fresh_songs (s\<lparr>loads := l\<rparr>) = fresh_songs s"
  by (simp_all add: fresh_songs_def srv_defs)

lemma fresh_put_room:
  "fresh_songs s \<Longrightarrow> fresh_room (next_ref s) room \<Longrightarrow> fresh_songs (put_room x room s)"
  by (simp add: fresh_songs_def put_room_def)

lemma fresh_room_same:
  "fresh_room k room \<Longrightarrow> songs room' = songs room \<Longrightarrow> currentRound room' = currentRound room \<Longrightarrow>
   currentSong room' = currentSong room \<Longrightarrow> fresh_room k room'"
  by (simp add: fresh_room_def upcoming_def split: option.splits)

lemma fresh_lookup: "fresh_songs s \<Longrightarrow> rooms s x = Some room \<Longrightarrow> fresh_room (next_ref s) room"
  by (simp add: fresh_songs_def)

lemma fresh_join_room: "fresh_songs s \<Longrightarrow> fresh_songs (join_room sid x n s)"
  by (auto simp: join_room_def Let_def intro!: fresh_put_room
      elim!: fresh_room_same [OF fresh_lookup] split: option.splits)

lemma fresh_start_game:
  "fresh_songs s \<Longrightarrow> start_game sid x rounds s = Inr s' \<Longrightarrow> fresh_songs s'"
  by (auto simp: start_game_def Let_def intro!: fresh_put_room
      elim!: fresh_room_same [OF fresh_lookup] split: option.splits if_splits)

lemma fresh_start_failed: "fresh_songs s \<Longrightarrow> fresh_songs (start_failed x code s)"
  by (auto simp: start_failed_def intro!: fresh_put_room
      elim!: fresh_room_same [OF fresh_lookup] split: option.splits)

lemma fresh_ai:
  "fresh_songs s \<Longrightarrow> fresh_songs (ai_reply n k s)"
  "fresh_songs s \<Longrightarrow> fresh_songs (ai_timeout n s)"
  by (auto simp: ai_reply_def ai_timeout_def fresh_start_failed split: option.splits nat.splits)

lemma fresh_endGameInternal: "fresh_songs s \<Longrightarrow> fresh_songs (endGameInternal x s)"
  by (auto simp: endGameInternal_def intro!: fresh_put_room
      elim!: fresh_room_same [OF fresh_lookup] split: option.splits)

lemma fresh_startRound: "fresh_songs s \<Longrightarrow> startRound x s = Inr s' \<Longrightarrow> fresh_songs s'"
  by (auto simp: startRound_def fresh_endGameInternal split: option.splits if_splits)

lemma fresh_round_timed_out:
  "fresh_songs s \<Longrightarrow> round_timed_out x song s = Inr s' \<Longrightarrow> fresh_songs s'"
  by (auto simp: round_timed_out_def intro!: fresh_put_room
      elim!: fresh_room_same [OF fresh_lookup] split: option.splits if_splits)

lemma fresh_submit_guess:
  "fresh_songs s \<Longrightarrow> submit_guess sid x guess s = Inr s' \<Longrightarrow> fresh_songs s'"
  by (auto simp: submit_guess_def Let_def intro!: fresh_put_room
      elim!: fresh_room_same [OF fresh_lookup] split: option.splits if_splits sum.splits bool.splits)

lemma fresh_room_open:
  assumes "fresh_room k room" "currentRound room < length (songs room)"
  shows "fresh_room k (room\<lparr>currentSong := Some (songs room ! currentRound room),
           roundActive := True, currentRound := Suc (currentRound room)\<rparr>)"
proof -
  let ?c = "songs room ! currentRound room"
  have d: "distinct (map ref (songs room))" and b: "list_all (\<lambda>x. ref x < k) (songs room)"
    using assms(1) by (simp_all add: fresh_room_def)
  have "distinct (map ref (drop (currentRound room) (songs room)))"
    using d by (simp add: drop_map [symmetric])
  then have "distinct (ref ?c # map ref (drop (Suc (currentRound room)) (songs room)))"
    using assms(2) by (simp add: Cons_nth_drop_Suc [symmetric])
  then have "ref ?c \<notin> set (map ref (drop (Suc (currentRound room)) (songs room)))"
    by simp
  moreover have "ref ?c < k"
    using b assms(2) by (simp add: list_all_length)
  ultimately show ?thesis using d b by (simp add: fresh_room_def upcoming_def split: option.splits)
qed

lemma fresh_countdown_done:
  "fresh_songs s \<Longrightarrow> countdown_done x s = Inr s' \<Longrightarrow> fresh_songs s'"
  by (auto simp: countdown_done_def Let_def intro!: fresh_put_room fresh_room_open
      dest: fresh_lookup split: option.splits if_splits)

lemma fresh_next_ref: "fresh_songs s \<Longrightarrow> next_ref s \<le> k \<Longrightarrow> fresh_songs (s\<lparr>next_ref := k\<rparr>)"
  by (auto simp: fresh_songs_def intro: fresh_room_mono)

lemma fresh_room_playlist:
  assumes "fresh_room k room" "k \<le> k'" "distinct (map ref pl)"
    "\<forall>c \<in> set pl. k \<le> ref c \<and> ref c < k'"
  shows "fresh_room k' (room\<lparr>songs := pl, totalRounds := n, currentRound := 0, state := PLAYING\<rparr>)"
  using assms by (fastforce simp: fresh_room_def upcoming_def list_all_iff split: option.splits)

lemma fresh_search_reply:
  assumes "fresh_songs s"
  shows "fresh_songs (search_reply n results s)"
proof (cases "n < length (loads s) \<and> stage (loads s ! n) = AwaitSearch (length results)")
  case False
  with assms show ?thesis by (auto simp: search_reply_def)
next
  case True
  let ?found = "mk_songs (next_ref s) (validSongs results)"
  let ?pl = "slice0 (requestedRounds (loads s ! n)) ?found"
  let ?s1 = "(set_stage n Settled s)\<lparr>next_ref := next_ref s + length ?found\<rparr>"
  let ?x = "load_room (loads s ! n)"
  have s1: "fresh_songs ?s1" using assms by (intro fresh_next_ref) (auto simp: set_stage_def)
  have pl: "distinct (map ref ?pl)"
    "\<forall>c \<in> set ?pl. next_ref s \<le> ref c \<and> ref c < next_ref s + length ?found"
    using ref_mk_songs [of _ "next_ref s" "validSongs results"]
    by (auto simp: distinct_slice0 distinct_mk_songs dest!: set_slice0)
  show ?thesis
  proof (cases "length ?pl = 0")
    case True
    with \<open>n < length (loads s) \<and> _\<close> show ?thesis
      using fresh_start_failed [OF s1, of ?x "''GENERATION_FAILED''"]
      by (simp add: search_reply_def Let_def)
  next
    case False
    show ?thesis
    proof (cases "rooms s ?x")
      case None
      with False \<open>n < length (loads s) \<and> _\<close> s1 show ?thesis
        by (simp add: search_reply_def Let_def)
    next
      case (Some room)
      have "fresh_room (next_ref s + length ?found)
              (room\<lparr>songs := ?pl, totalRounds := length ?pl, currentRound := 0, state := PLAYING\<rparr>)"
        using fresh_lookup [OF assms Some] pl by (intro fresh_room_playlist) auto
      then have "fresh_songs (put_room ?x (room\<lparr>songs := ?pl, totalRounds := length ?pl,
              currentRound := 0, state := PLAYING\<rparr>) ?s1)"
        using s1 by (intro fresh_put_room) simp_all
      with False \<open>n < length (loads s) \<and> _\<close> Some show ?thesis
        by (simp add: search_reply_def Let_def)
    qed
  qed
qed

lemma fresh_callback:
  assumes "fresh_songs s" "run_callback cb s = Inr s'"
  shows "fresh_songs s'"
proof (cases cb)
  case (StartRoundCb x)
  with assms show ?thesis using fresh_startRound [of s x s'] by simp
next
  case (CountdownCb x)
  with assms show ?thesis using fresh_countdown_done [of s x s'] by simp
next
  case (RoundTimeoutCb x song)
  with assms show ?thesis using fresh_round_timed_out [of s x song s'] by simp
next
  case (WinnerPauseCb x)
  with assms show ?thesis
    using fresh_startRound [of s x s'] fresh_endGameInternal [of s x]
    by (auto simp: winner_pause_done_def split: option.splits if_splits)
next
  case (AiTimeoutCb n)
  with assms show ?thesis using fresh_ai(2) [of s n] by auto
qed

lemma fresh_step:
  assumes "fresh_songs s" "step i s = Inr s'"
  shows "fresh_songs s'"
proof (cases i)
  case (JoinRoom sid x n)
  with assms show ?thesis using fresh_join_room [of s sid x n] by auto
next
  case (StartGame sid x rounds)
  with assms show ?thesis using fresh_start_game [of s sid x rounds s'] by auto
next
  case (SubmitGuess sid x g)
  with assms show ?thesis using fresh_submit_guess [of s sid x g s'] by auto
next
  case (Fire k)
  with assms show ?thesis
    using fresh_callback [of "s\<lparr>timers := take k (timers s) @ drop (Suc k) (timers s)\<rparr>"
        "fst (timers s ! k)" s']
    by (auto simp: fire_def split: if_splits)
next
  case (AiReply n k)
  with assms show ?thesis using fresh_ai(1) [of s n k] by auto
next
  case (SearchReply n results)
  with assms show ?thesis using fresh_search_reply [of s n results] by auto
qed

lemma fresh_run: "fresh_songs s \<Longrightarrow> run is s = Inr s' \<Longrightarrow> fresh_songs s'"
proof (induction "is" arbitrary: s)
  case Nil
  then show ?case by simp
next
  case (Cons i "is")
  then show ?case by (auto split: sum.splits dest: fresh_step)
qed

lemma fresh_create_room:
  "fresh_songs s \<Longrightarrow> fresh_songs (create_room sid n rid s)"
  by (auto simp: create_room_def new_room_def fresh_room_def upcoming_def intro!: fresh_put_room)

lemma fresh_empty_server: "fresh_songs empty_server"
  by (simp add: fresh_songs_def empty_server_def)

text \<open>Once its round is closed, the current song of a room is spent.\<close>

lemma spent_after_close:
  assumes "fresh_songs s" "rooms s rid = Some room" "currentSong room = Some cur"
    "rooms s' rid = Some room'" "\<not> roundActive room'" "upcoming room' = upcoming room"
    "next_ref s' = next_ref s"
  shows "spent rid (ref cur) s'"
  using fresh_lookup [OF assms(1,2)] assms(3-)
  by (simp add: spent_def fresh_room_def split: option.splits)


subsection \<open>Consistent states\<close>

lemma ends_emit:
  "ends rid r (emit t e s) = ends rid r s @ (if outcome_for rid r (t, e) then [(t, e)] else [])"
  by (simp add: ends_def emit_def)

lemma ends_join_room [simp]: "ends rid r (join_room sid x n s) = ends rid r s"
  by (simp add: join_room_def Let_def ends_emit_plain split: option.splits)

lemma ends_start_game:
  "start_game sid x rounds s = Inr s' \<Longrightarrow> ends rid r s' = ends rid r s"
  by (auto simp: start_game_def Let_def ends_emit_plain split: option.splits if_splits)

lemma ends_start_failed [simp]: "ends rid r (start_failed x code s) = ends rid r s"
  by (simp add: start_failed_def ends_emit_plain split: option.splits)

lemma ends_ai [simp]:
  "ends rid r (ai_reply n k s) = ends rid r s" "ends rid r (ai_timeout n s) = ends rid r s"
  by (simp_all add: ai_reply_def ai_timeout_def split: option.splits nat.splits)

lemma ends_search_reply [simp]: "ends rid r (search_reply n results s) = ends rid r s"
  by (simp add: search_reply_def Let_def ends_emit_plain split: option.splits)

lemma ends_endGameInternal [simp]: "ends rid r (endGameInternal x s) = ends rid r s"
  by (simp add: endGameInternal_def ends_emit_plain split: option.splits)

lemma ends_startRound: "startRound x s = Inr s' \<Longrightarrow> ends rid r s' = ends rid r s"
  by (auto simp: startRound_def ends_emit_plain split: option.splits if_splits)

lemma ends_countdown_done: "countdown_done x s = Inr s' \<Longrightarrow> ends rid r s' = ends rid r s"
  by (auto simp: countdown_done_def Let_def ends_emit_other split: option.splits if_splits)

lemma new_end_round_timed_out:
  assumes "fresh_songs s" "round_timed_out x song s = Inr s'" "ends rid r s' \<noteq> ends rid r s"
  shows "spent rid r s'"
proof (cases "rooms s x")
  case None
  with assms show ?thesis by (simp add: round_timed_out_def)
next
  case (Some room)
  show ?thesis
  proof (cases "roundActive room \<and> same_song (currentSong room) song")
    case False
    with assms Some show ?thesis by (auto simp: round_timed_out_def)
  next
    case True
    then obtain c where c: "currentSong room = Some c" "ref c = ref song"
      by (auto simp: same_song_def split: option.splits)
    from assms(2) Some True
    have s': "s' = setTimeout (StartRoundCb x) 5000 (emit (ToRoom x) (round_timeout song)
                (put_room x (room\<lparr>roundActive := False\<rparr>) s))"
      by (simp add: round_timed_out_def)
    with assms(3) have xr: "x = rid" "ref song = r"
      by (auto simp: ends_emit split: if_splits)
    have "spent rid (ref c) s'"
      using assms(1) Some c(1) xr(1)
      by (intro spent_after_close [of s rid room c s' "room\<lparr>roundActive := False\<rparr>"])
         (simp_all add: s' srv_defs upcoming_def)
    with c xr show ?thesis by simp
  qed
qed

lemma new_end_submit_guess:
  assumes "fresh_songs s" "submit_guess sid x guess s = Inr s'" "ends rid r s' \<noteq> ends rid r s"
  shows "spent rid r s'"
proof (cases "rooms s x")
  case None
  with assms show ?thesis by (simp add: submit_guess_def)
next
  case (Some room)
  show ?thesis
  proof (cases "\<not> roundActive room \<or> state room \<noteq> PLAYING")
    case True
    with assms Some show ?thesis by (auto simp: submit_guess_def)
  next
    case False
    with assms(2) Some obtain c where c: "currentSong room = Some c"
      by (auto simp: submit_guess_def split: option.splits)
    from assms(2) Some False c obtain b where b: "checkAnswer guess (JStr (title c)) = Inr b"
      by (auto simp: submit_guess_def split: sum.splits)
    show ?thesis
    proof (cases "b \<and> find (\<lambda>p. player_id p = sid) (players room) \<noteq> None")
      case False
      with assms Some \<open>\<not> (\<not> roundActive room \<or> state room \<noteq> PLAYING)\<close> c b show ?thesis
        by (cases b) (auto simp: submit_guess_def Let_def ends_emit_plain)
    next
      case True
      then obtain p where p: "find (\<lambda>p. player_id p = sid) (players room) = Some p" by auto
      let ?room2 = "room\<lparr>roundActive := False, players := award sid (players room)\<rparr>"
      from assms(2) Some \<open>\<not> (\<not> roundActive room \<or> state room \<noteq> PLAYING)\<close> c b True p
      have s': "s' = setTimeout (WinnerPauseCb x) 5000
                  (emit (ToRoom x) (round_winner (player_name p) c)
                     (emit (ToRoom x) (update_scores (players ?room2)) (put_room x ?room2 s)))"
        by (simp add: submit_guess_def Let_def)
      with assms(3) have xr: "x = rid" "ref c = r"
        by (auto simp: ends_emit ends_emit_plain split: if_splits)
      have "spent rid (ref c) s'"
        using assms(1) Some c xr(1)
        by (intro spent_after_close [of s rid room c s' ?room2])
           (simp_all add: s' srv_defs upcoming_def)
      with xr show ?thesis by simp
    qed
  qed
qed

lemma new_end_callback:
  assumes "fresh_songs s" "run_callback cb s = Inr s'" "ends rid r s' \<noteq> ends rid r s"
  shows "spent rid r s'"
proof (cases cb)
  case (StartRoundCb x)
  with assms show ?thesis using ends_startRound [of x s s' rid r] by simp
next
  case (CountdownCb x)
  with assms show ?thesis using ends_countdown_done [of x s s' rid r] by simp
next
  case (RoundTimeoutCb x song)
  with assms show ?thesis using new_end_round_timed_out [of s x song s' rid r] by simp
next
  case (WinnerPauseCb x)
  with assms show ?thesis using ends_startRound [of x s s' rid r]
    by (auto simp: winner_pause_done_def split: option.splits if_splits)
next
  case (AiTimeoutCb n)
  with assms show ?thesis by auto
qed

lemma new_end_step:
  assumes "fresh_songs s" "step i s = Inr s'" "ends rid r s' \<noteq> ends rid r s"
  shows "spent rid r s'"
proof (cases i)
  case (JoinRoom sid x n)
  with assms show ?thesis by auto
next
  case (StartGame sid x rounds)
  with assms show ?thesis using ends_start_game [of sid x rounds s s' rid r] by auto
next
  case (SubmitGuess sid x g)
  with assms show ?thesis using new_end_submit_guess [of s sid x g s' rid r] by auto
next
  case (Fire k)
  with assms show ?thesis
    using new_end_callback [of "s\<lparr>timers := take k (timers s) @ drop (Suc k) (timers s)\<rparr>"
        "fst (timers s ! k)" s' rid r]
    by (auto simp: fire_def split: if_splits)
next
  case (AiReply n k)
  with assms show ?thesis by auto
next
  case (SearchReply n results)
  with assms show ?thesis by auto
qed

lemma consistent_step:
  assumes "consistent s" "step i s = Inr s'"
  shows "consistent s'"
proof -
  have f: "fresh_songs s" using assms(1) by (simp add: consistent_def)
  have "spent rid r s'" if "ends rid r s' \<noteq> []" for rid r
  proof (cases "ends rid r s' = ends rid r s")
    case True
    with that assms(1) have "spent rid r s" by (simp add: consistent_def)
    with assms(2) show ?thesis using spent_step by blast
  next
    case False
    with f assms(2) show ?thesis by (rule new_end_step)
  qed
  with fresh_step [OF f assms(2)] show ?thesis by (simp add: consistent_def)
qed

lemma consistent_run: "consistent s \<Longrightarrow> run is s = Inr s' \<Longrightarrow> consistent s'"
proof (induction "is" arbitrary: s)
  case Nil
  then show ?case by simp
next
  case (Cons i "is")
  then show ?case by (auto split: sum.splits dest: consistent_step)
qed

lemma open_round_not_ended:
  assumes "consistent s" "rooms s rid = Some room" "roundActive room" "currentSong room = Some cur"
  shows "ends rid (ref cur) s = []"
proof (rule ccontr)
  assume "ends rid (ref cur) s \<noteq> []"
  with assms(1) have "spent rid (ref cur) s" by (simp add: consistent_def)
  with assms(2-) show False by (simp add: spent_def)
qed

lemma consistent_lobby_demo: "consistent lobby_demo"
  by (auto simp: consistent_def fresh_songs_def fresh_room_def upcoming_def ends_def lobby_demo_def
      split: if_splits)


lemma consistent_round_demo: "consistent round_demo"
  using consistent_run [OF consistent_lobby_demo round_demo_reached] .

lemma wonderwall_exact: "checkAnswer (JStr ''wonderwall'') (JStr (title wonderwall)) = Inr True"
  by code_simp

lemma restart_demo_reached: "run restart_inputs round_demo = Inr restart_demo"
  using wonderwall_exact
  by (simp add: restart_inputs_def round_demo_def restart_demo_def yesterday_def submit_guess_def
      start_game_def requested_def ai_reply_def search_reply_def validSongs_def slice0_def
      fire_def startRound_def countdown_done_def Let_def srv_defs demo_defs numeral_2_eq_2
      numeral_3_eq_3)

lemma map_upd_same_key [simp]: "(m(k \<mapsto> a) = m(k \<mapsto> b)) = (a = b)"
  by (auto dest: map_upd_eqD1)

lemma twice_demo_reached: "run twice_inputs lobby_demo = Inr twice_demo"
  by (simp add: twice_inputs_def lobby_demo_def twice_demo_def yesterday_def creep_def
      start_game_def requested_def ai_reply_def search_reply_def validSongs_def slice0_def
      fire_def startRound_def countdown_done_def Let_def srv_defs demo_defs)

subsection \<open>The end of a round\<close>

lemma timeout_guard:
  "rooms s rid = Some room \<Longrightarrow> \<not> (roundActive room \<and> same_song (currentSong room) song) \<Longrightarrow>
   round_timed_out rid song s = Inr s"
  by (auto simp: round_timed_out_def)

lemma won_round_stays_won:
  assumes "consistent s" "rooms s rid = Some room" "roundActive room" "state room = PLAYING"
    "currentSong room = Some cur" "checkAnswer guess (JStr (title cur)) = Inr True"
    "find (\<lambda>p. player_id p = sid) (players room) = Some p"
    "submit_guess sid rid guess s = Inr s1" "run is s1 = Inr s2"
  shows "ends rid (ref cur) s2 = [(ToRoom rid, round_winner (player_name p) cur)]"
proof -
  let ?room2 = "room\<lparr>roundActive := False, players := award sid (players room)\<rparr>"
  have s1: "s1 = setTimeout (WinnerPauseCb rid) 5000
                  (emit (ToRoom rid) (round_winner (player_name p) cur)
                     (emit (ToRoom rid) (update_scores (players ?room2)) (put_room rid ?room2 s)))"
    using assms(2-8) by (simp add: submit_guess_def Let_def)
  have "ends rid (ref cur) s = []"
    using assms(1,2,3,5) by (rule open_round_not_ended)
  then have e1: "ends rid (ref cur) s1 = [(ToRoom rid, round_winner (player_name p) cur)]"
    by (simp add: s1 ends_emit ends_emit_plain)
  have "fresh_songs s" using assms(1) by (simp add: consistent_def)
  then have "spent rid (ref cur) s1"
    using assms(2,5)
    by (intro spent_after_close [of s rid room cur s1 ?room2])
       (simp_all add: s1 srv_defs upcoming_def)
  from spent_run [OF this assms(9)] e1 show ?thesis by simp
qed

text \<open>
  What the guard of the timeout callback achieves. The callback does nothing, neither to
  the state nor to the outbox, unless the round is still open on the very song the timer
  was armed for; then it closes the round and announces the timeout. In every run, no
  round is ended twice: between two \<^verbatim>\<open>new_round\<close> events of a room lies at most one
  \<^verbatim>\<open>round_winner\<close> or \<^verbatim>\<open>round_timeout\<close>. And once a player of the room has won a
  round, the winner's event stays the only event that ever ends the round of that song,
  whatever happens afterwards: its timeout is never announced.
\<close>

lemma timeout_acts:
  "rooms s rid = Some room \<Longrightarrow> roundActive room \<Longrightarrow> currentSong room = Some cur \<Longrightarrow>
   ref cur = ref song \<Longrightarrow>
   round_timed_out rid song s =
     Inr (setTimeout (StartRoundCb rid) 5000
            (emit (ToRoom rid) (round_timeout song)
               (put_room rid (room\<lparr>roundActive := False\<rparr>) s)))"
  by (simp add: round_timed_out_def same_song_def)

lemma round_ends_at_most_once:
  "(rooms s rid = Some room \<and> \<not> (roundActive room \<and> same_song (currentSong room) song)
      \<longrightarrow> round_timed_out rid song s = Inr s)
   \<and> (rounds_ok rid s \<and> run is s = Inr s'
      \<longrightarrow> list_all (\<lambda>n. n \<le> 1) (outcomes rid (outbox s')))
   \<and> (consistent s \<and> rooms s rid = Some room \<and> roundActive room \<and> state room = PLAYING
        \<and> currentSong room = Some cur \<and> checkAnswer guess (JStr (title cur)) = Inr True
        \<and> find (\<lambda>p. player_id p = sid) (players room) = Some p
        \<and> submit_guess sid rid guess s = Inr s1 \<and> run is s1 = Inr s2
      \<longrightarrow> ends rid (ref cur) s2 = [(ToRoom rid, round_winner (player_name p) cur)])"
  using timeout_guard [of s rid room song] rounds_ok_run [of rid s "is" s']
    won_round_stays_won [of s rid room cur guess sid p s1 "is" s2]
  by (auto simp: rounds_ok_def)

text \<open>In the sample game played to its end every round ends exactly once, the first by
  its winner and the second by its timeout.\<close>

lemma regular_game_resolved_once:
  "run regular_inputs round_demo = Inr regular_demo"
  "outcomes ''ROOM1'' (outbox regular_demo) = [1, 1, 0]"
  "resolved_once ''ROOM1'' (outbox regular_demo)"
proof -
  show "run regular_inputs round_demo = Inr regular_demo"
    using wonderwall_guesses(1)
    by (simp add: regular_inputs_def round_demo_def regular_demo_def won_demo_def won_room_def
        submit_guess_def fire_def ai_timeout_def round_timed_out_def winner_pause_done_def
        startRound_def countdown_done_def endGameInternal_def same_song_def Let_def srv_defs
        demo_defs numeral_2_eq_2)
  show "outcomes ''ROOM1'' (outbox regular_demo) = [1, 1, 0]"
    by (simp add: outcomes_def regular_demo_def won_demo_def round_demo_def)
  then show "resolved_once ''ROOM1'' (outbox regular_demo)"
    by (simp add: resolved_once_def)
qed

text \<open>
  \<^bold>\<open>C2.\<close> Every round is to end in exactly one of the two ways, by a winner or by its
  timeout, before the next round opens. The guard of the timeout callback keeps a round
  from ending twice, but a round can be followed by the next one without having ended at
  all. When the request to start the game arrives twice, both requests are served (the
  handler does not look at the phase of the room): two countdowns are under way, and the
  second opens the second round while the first round is open; the first round ends in
  neither way. When a socket that is no player of the room sends the right title, the round
  is closed without an event and its timeout never acts; the next round, of the game
  started anew, follows a round that has no end. And when the playlist has a single song,
  the second countdown of a doubled start finds no song to play and throws.
\<close>

theorem round_without_end:
  "run twice_inputs lobby_demo = Inr twice_demo
   \<and> outcomes ''ROOM1'' (outbox twice_demo) = [0, 0, 0]
   \<and> \<not> resolved_once ''ROOM1'' (outbox twice_demo)
   \<and> run restart_inputs round_demo = Inr restart_demo
   \<and> outcomes ''ROOM1'' (outbox restart_demo) = [0, 0, 0]
   \<and> \<not> resolved_once ''ROOM1'' (outbox restart_demo)
   \<and> run twice_short_inputs lobby_demo = Inl TypeError"
proof -
  have 1: "outcomes ''ROOM1'' (outbox twice_demo) = [0, 0, 0]"
    by (simp add: outcomes_def twice_demo_def lobby_demo_def)
  have 2: "outcomes ''ROOM1'' (outbox restart_demo) = [0, 0, 0]"
    by (simp add: outcomes_def restart_demo_def round_demo_def)
  have 3: "run twice_short_inputs lobby_demo = Inl TypeError"
    by (simp add: twice_short_inputs_def lobby_demo_def start_game_def requested_def
        ai_reply_def search_reply_def validSongs_def slice0_def fire_def startRound_def
        countdown_done_def Let_def srv_defs demo_defs)
  show ?thesis
    using 1 2 3 twice_demo_reached restart_demo_reached
    by (simp add: resolved_once_def)
qed

subsection \<open>Timers\<close>

lemma timers_start_failed [simp]: "timers (start_failed rid code s) = timers s"
  by (simp add: start_failed_def srv_defs split: option.splits)

lemma timers_endGameInternal [simp]: "timers (endGameInternal rid s) = timers s"
  by (simp add: endGameInternal_def srv_defs split: option.splits)

lemma timers_join_room [simp]: "timers (join_room sid rid n s) = timers s"
  by (simp add: join_room_def srv_defs Let_def split: option.splits)

lemma timers_set_stage [simp]: "timers (set_stage n st s) = timers s"
  by (simp add: set_stage_def)

lemma timers_ai [simp]: "timers (ai_reply n k s) = timers s" "timers (ai_timeout n s) = timers s"
  by (simp_all add: ai_reply_def ai_timeout_def split: option.splits nat.splits)

lemma timers_start_game:
  "start_game sid rid rounds s = Inr s' \<Longrightarrow> \<exists>new. length new \<le> 1 \<and> timers s' = timers s @ new"
  by (auto simp: start_game_def srv_defs Let_def split: option.splits if_splits)

lemma timers_search_reply:
  "\<exists>new. length new \<le> 1 \<and> timers (search_reply n results s) = timers s @ new"
  by (simp add: search_reply_def srv_defs Let_def split: option.splits)

lemma timers_startRound:
  "startRound rid s = Inr s' \<Longrightarrow> \<exists>new. length new \<le> 1 \<and> timers s' = timers s @ new"
  by (auto simp: startRound_def srv_defs split: option.splits if_splits)

lemma timers_callback:
  assumes "run_callback cb s = Inr s'"
  shows "\<exists>new. length new \<le> 1 \<and> timers s' = timers s @ new"
proof (cases cb)
  case (StartRoundCb rid)
  with assms show ?thesis using timers_startRound [of rid s s'] by simp
next
  case (CountdownCb rid)
  with assms show ?thesis
    by (auto simp: countdown_done_def srv_defs Let_def split: option.splits if_splits)
next
  case (RoundTimeoutCb rid song)
  with assms show ?thesis
    by (auto simp: round_timed_out_def srv_defs split: option.splits if_splits)
next
  case (WinnerPauseCb rid)
  with assms show ?thesis using timers_startRound [of rid s s']
    by (auto simp: winner_pause_done_def endGameInternal_def srv_defs split: option.splits if_splits)
next
  case (AiTimeoutCb n)
  with assms show ?thesis by auto
qed

lemma timers_submit_guess:
  "submit_guess sid rid guess s = Inr s' \<Longrightarrow> \<exists>new. length new \<le> 1 \<and> timers s' = timers s @ new"
  by (auto simp: submit_guess_def srv_defs Let_def split: option.splits if_splits sum.splits bool.splits)

lemma winning_guess_timers:
  assumes "rooms s rid = Some room" "roundActive room" "state room = PLAYING"
    "currentSong room = Some cur" "checkAnswer guess (JStr (title cur)) = Inr True"
    "find (\<lambda>p. player_id p = sid) (players room) = Some p"
  shows "\<exists>s'. submit_guess sid rid guess s = Inr s' \<and> timers s' = timers s @ [(WinnerPauseCb rid, 5000)]"
  using assms by (simp add: submit_guess_def srv_defs Let_def)

text \<open>
  \<^bold>\<open>C3\<close>, as the code has it. The server keeps no handle of a timer and never cancels
  one: a step leaves every pending timer pending, but the one that fires, and arms at most
  one new timer. When a player of the room wins the round, the pause timer is armed behind
  the timers already pending, the timeout of the round among them.
\<close>

theorem timers_never_cancelled:
  "(step i s = Inr s' \<longrightarrow> (\<exists>new. length new \<le> 1 \<and> timers s' = kept_timers i s @ new))
   \<and> (rooms s rid = Some room \<and> roundActive room \<and> state room = PLAYING
        \<and> currentSong room = Some cur \<and> checkAnswer guess (JStr (title cur)) = Inr True
        \<and> find (\<lambda>p. player_id p = sid) (players room) = Some p \<longrightarrow>
      (\<exists>s'. step (SubmitGuess sid rid guess) s = Inr s'
         \<and> timers s' = timers s @ [(WinnerPauseCb rid, 5000)]))"
proof -
  have "\<exists>new. length new \<le> 1 \<and> timers s' = kept_timers i s @ new" if "step i s = Inr s'"
  proof (cases i)
    case (JoinRoom sid rid n)
    with that show ?thesis by auto
  next
    case (StartGame sid rid rounds)
    with that show ?thesis using timers_start_game [of sid rid rounds s s'] by auto
  next
    case (SubmitGuess sid rid g)
    with that show ?thesis using timers_submit_guess [of sid rid g s s'] by auto
  next
    case (Fire k)
    show ?thesis
    proof (cases "k < length (timers s)")
      case True
      with that Fire show ?thesis
        using timers_callback [of "fst (timers s ! k)"
            "s\<lparr>timers := take k (timers s) @ drop (Suc k) (timers s)\<rparr>" s']
        by (simp add: fire_def)
    next
      case False
      with that Fire show ?thesis by (auto simp: fire_def)
    qed
  next
    case (AiReply n k)
    with that show ?thesis by auto
  next
    case (SearchReply n results)
    with that show ?thesis using timers_search_reply [of n results s] by auto
  qed
  then show ?thesis using winning_guess_timers [of s rid room cur guess sid p] by auto
qed

theorem timers_never_cancelled_witness:
  "(\<exists>new. length new \<le> 1 \<and> timers won_demo = timers round_demo @ new)
   \<and> (\<exists>s'. step (SubmitGuess ''s2'' ''ROOM1'' (JStr ''wonderwal'')) round_demo = Inr s'
         \<and> timers s' = timers round_demo @ [(WinnerPauseCb ''ROOM1'', 5000)])"
proof -
  have st: "step (SubmitGuess ''s2'' ''ROOM1'' (JStr ''wonderwal'')) round_demo = Inr won_demo"
    by (simp add: won_demo_reached)
  have fnd: "find (\<lambda>p. player_id p = ''s2'') (players room_demo) = Some bob"
    by (simp add: demo_defs)
  show ?thesis
    using timers_never_cancelled [of "SubmitGuess ''s2'' ''ROOM1'' (JStr ''wonderwal'')" round_demo
        won_demo "''ROOM1''" room_demo wonderwall "JStr ''wonderwal''" "''s2''" bob]
      st fnd round_demo_room room_demo_open wonderwall_guesses(1)
    by simp
qed

text \<open>
  \<^bold>\<open>C3\<close>, as the claim states it, fails: after Bob's right guess the timeout timer of
  the round is still armed, next to the pause timer armed by the guess.
\<close>

theorem timeout_timer_survives_win:
  "length (round_timers ''ROOM1'' round_demo) = 1
   \<and> step (SubmitGuess ''s2'' ''ROOM1'' (JStr ''wonderwal'')) round_demo = Inr won_demo
   \<and> round_timers ''ROOM1'' won_demo =
       [(RoundTimeoutCb ''ROOM1'' wonderwall, 30000), (WinnerPauseCb ''ROOM1'', 5000)]"
  by (simp add: won_demo_reached) (simp add: round_timers_def round_demo_def won_demo_def)

text \<open>
  \<^bold>\<open>C4.\<close> When the matcher accepts a guess for an open round and the socket that sent it
  is not among the players of the room, the handler only clears \<^verbatim>\<open>roundActive\<close>: the scores,
  the outbox and the pending timers are what they were, so no winner is announced and
  nothing is scheduled. The timeout callback of the round then finds the round closed and
  does nothing, and in no run from there is the round of this song ever ended by a
  \<^verbatim>\<open>round_winner\<close> or a \<^verbatim>\<open>round_timeout\<close>.
\<close>

theorem unlisted_winner_stalls_round:
  assumes "consistent s" "rooms s rid = Some room" "roundActive room" "state room = PLAYING"
    "currentSong room = Some cur" "checkAnswer guess (JStr (title cur)) = Inr True"
    "sid \<notin> player_id ` set (players room)"
  shows "submit_guess sid rid guess s = Inr (put_room rid (room\<lparr>roundActive := False\<rparr>) s)
     \<and> round_timed_out rid cur (put_room rid (room\<lparr>roundActive := False\<rparr>) s) =
         Inr (put_room rid (room\<lparr>roundActive := False\<rparr>) s)
     \<and> (\<forall>is s'. run is (put_room rid (room\<lparr>roundActive := False\<rparr>) s) = Inr s'
           \<longrightarrow> ends rid (ref cur) s' = [])"
proof -
  let ?s1 = "put_room rid (room\<lparr>roundActive := False\<rparr>) s"
  have nf: "find (\<lambda>p. player_id p = sid) (players room) = None"
    using assms(7) by (auto simp: find_None_iff)
  have 1: "submit_guess sid rid guess s = Inr ?s1"
    using assms(2-6) nf by (simp add: submit_guess_def Let_def)
  have 2: "round_timed_out rid cur ?s1 = Inr ?s1"
    by (simp add: round_timed_out_def put_room_def)
  have e: "ends rid (ref cur) ?s1 = []"
    using open_round_not_ended [OF assms(1,2,3,5)] by simp
  have "fresh_songs s" using assms(1) by (simp add: consistent_def)
  then have sp: "spent rid (ref cur) ?s1"
    using assms(2,5)
    by (intro spent_after_close [of s rid room cur ?s1 "room\<lparr>roundActive := False\<rparr>"])
       (simp_all add: srv_defs upcoming_def)
  have 3: "ends rid (ref cur) s' = []" if "run is ?s1 = Inr s'" for "is" s'
    using spent_run [OF sp that] e by simp
  from 1 2 3 show ?thesis by blast
qed

theorem unlisted_winner_stalls_round_witness:
  "submit_guess ''s9'' ''ROOM1'' (JStr ''wonderwall'') round_demo =
     Inr (put_room ''ROOM1'' (room_demo\<lparr>roundActive := False\<rparr>) round_demo)
   \<and> ends ''ROOM1'' (ref wonderwall) restart_demo = []"
proof -
  have out: "''s9'' \<notin> player_id ` set (players room_demo)"
    by (simp add: demo_defs)
  note stall = unlisted_winner_stalls_round [OF consistent_round_demo round_demo_room
      room_demo_open wonderwall_exact out]
  from stall have 1: "submit_guess ''s9'' ''ROOM1'' (JStr ''wonderwall'') round_demo =
     Inr (put_room ''ROOM1'' (room_demo\<lparr>roundActive := False\<rparr>) round_demo)" by blast
  with restart_demo_reached
  have "run (tl restart_inputs) (put_room ''ROOM1'' (room_demo\<lparr>roundActive := False\<rparr>) round_demo)
      = Inr restart_demo"
    by (simp add: restart_inputs_def)
  with stall have "ends ''ROOM1'' (ref wonderwall) restart_demo = []" by blast
  with 1 show ?thesis by simp
qed


subsection \<open>Starting a game\<close>

text \<open>What the handler of \<^verbatim>\<open>start_game\<close> does, for all requests. It looks at nothing but
  the existence of the room and of a player in it: a request from any socket moves the room
  to \<open>LOADING\<close> and announces it, whatever the phase of the room was. For a room that does
  not exist, or one without players, the handler returns at once, the server stays as it is
  and sends nothing; unless the room id is the name of a property that every object
  inherits: then the handler throws.\<close>

lemma start_game_any_sender:
  "(rooms s rid = Some room \<and> players room \<noteq> [] \<longrightarrow>
      (\<exists>s'. start_game sid rid rounds s = Inr s'
         \<and> rooms s' rid = Some (room\<lparr>state := LOADING\<rparr>)
         \<and> outbox s' = outbox s @ [(ToRoom rid, game_loading)]))
   \<and> ((rooms s rid = None \<and> \<not> inherited_key rid)
        \<or> (\<exists>room. rooms s rid = Some room \<and> players room = []) \<longrightarrow>
      start_game sid rid rounds s = Inr s)
   \<and> (rooms s rid = None \<and> inherited_key rid \<longrightarrow>
      start_game sid rid rounds s = Inl TypeError)"
  by (auto simp: start_game_def Let_def srv_defs)

text \<open>
  \<^bold>\<open>C5.\<close> A request to start the game is to be honoured only when it comes from the
  owner of a room in the lobby, and to be answered with an error otherwise. The handler
  does not do that. In the lobby of Ann's room a socket that is no player starts the game.
  While a round is open, a request sends the room back to \<open>LOADING\<close>, the round still
  open. A request for a room that does not exist changes nothing and is answered by
  nothing, where \<^verbatim>\<open>join_room\<close> answers both a missing room and a room past the lobby with
  an error. And a request for the room \<open>constructor\<close> throws outside the \<^verbatim>\<open>try\<close> block
  of the handler.
\<close>

theorem start_game_unguarded:
  "(\<exists>s' r. start_game ''s9'' ''ROOM1'' None lobby_demo = Inr s'
        \<and> rooms s' ''ROOM1'' = Some r \<and> state r = LOADING
        \<and> map player_id (players r) = [''s1'', ''s2'']
        \<and> outbox s' = outbox lobby_demo @ [(ToRoom ''ROOM1'', game_loading)])
   \<and> map_option state (rooms round_demo ''ROOM1'') = Some PLAYING
   \<and> (\<exists>s' r. start_game ''s1'' ''ROOM1'' None round_demo = Inr s'
        \<and> rooms s' ''ROOM1'' = Some r \<and> state r = LOADING \<and> roundActive r
        \<and> outbox s' = outbox round_demo @ [(ToRoom ''ROOM1'', game_loading)])
   \<and> start_game ''s1'' ''NOPE'' None lobby_demo = Inr lobby_demo
   \<and> start_game ''s1'' ''constructor'' None lobby_demo = Inl TypeError
   \<and> run [StartGame ''s1'' ''constructor'' None, JoinRoom ''s3'' ''ROOM1'' ''Cy''] lobby_demo
        = Inl TypeError
   \<and> outbox (join_room ''s3'' ''NOPE'' ''Cy'' lobby_demo) =
        outbox lobby_demo @ [(ToSocket ''s3'', error_event ''ROOM_NOT_FOUND_OR_STARTED'')]
   \<and> outbox (join_room ''s3'' ''ROOM1'' ''Cy'' round_demo) =
        outbox round_demo @ [(ToSocket ''s3'', error_event ''ROOM_NOT_FOUND_OR_STARTED'')]"
proof -
  have 1: "\<exists>s' r. start_game ''s9'' ''ROOM1'' None lobby_demo = Inr s'
        \<and> rooms s' ''ROOM1'' = Some r \<and> state r = LOADING
        \<and> map player_id (players r) = [''s1'', ''s2'']
        \<and> outbox s' = outbox lobby_demo @ [(ToRoom ''ROOM1'', game_loading)]"
    by (simp add: start_game_def lobby_demo_def Let_def srv_defs ann_def bob_def)
  have 2: "\<exists>s' r. start_game ''s1'' ''ROOM1'' None round_demo = Inr s'
        \<and> rooms s' ''ROOM1'' = Some r \<and> state r = LOADING \<and> roundActive r
        \<and> outbox s' = outbox round_demo @ [(ToRoom ''ROOM1'', game_loading)]"
    by (simp add: start_game_def round_demo_def room_demo_def Let_def srv_defs)
  have p: "map_option state (rooms round_demo ''ROOM1'') = Some PLAYING"
    by (simp add: round_demo_def room_demo_def)
  have 3: "start_game ''s1'' ''NOPE'' None lobby_demo = Inr lobby_demo"
    by (simp add: start_game_def lobby_demo_def inherited_key_def)
  have 4: "start_game ''s1'' ''constructor'' None lobby_demo = Inl TypeError"
    by (simp add: start_game_def lobby_demo_def inherited_key_def)
  have 5: "run [StartGame ''s1'' ''constructor'' None, JoinRoom ''s3'' ''ROOM1'' ''Cy''] lobby_demo
        = Inl TypeError"
    using 4 by simp
  have 6: "outbox (join_room ''s3'' ''NOPE'' ''Cy'' lobby_demo) =
        outbox lobby_demo @ [(ToSocket ''s3'', error_event ''ROOM_NOT_FOUND_OR_STARTED'')]"
    by (simp add: join_room_def lobby_demo_def srv_defs)
  have 7: "outbox (join_room ''s3'' ''ROOM1'' ''Cy'' round_demo) =
        outbox round_demo @ [(ToSocket ''s3'', error_event ''ROOM_NOT_FOUND_OR_STARTED'')]"
    by (simp add: join_room_def round_demo_def room_demo_def srv_defs)
  from 1 2 p 3 4 5 6 7 show ?thesis by blast
qed

lemma winner_pause_is_startRound: "winner_pause_done rid s = startRound rid s"
  by (auto simp: winner_pause_done_def startRound_def split: option.splits)

text \<open>
  \<^bold>\<open>C6\<close>, as the code has it. The pause armed when a round is won and the pause armed
  when it times out are both 5000 ms in the server, and what runs after either pause is
  the same call of \<^verbatim>\<open>startRound\<close>, which ends the game when no round is left. Only the
  older copy of the handler pauses 1000 ms after a winner.
\<close>

theorem pause_after_resolution:
  assumes "rooms s rid = Some room" "roundActive room" "state room = PLAYING"
    "currentSong room = Some cur" "checkAnswer guess (JStr (title cur)) = Inr True"
    "find (\<lambda>p. player_id p = sid) (players room) = Some p"
  shows "(\<exists>s'. submit_guess sid rid guess s = Inr s'
            \<and> timers s' = timers s @ [(WinnerPauseCb rid, 5000)])
       \<and> (\<exists>s'. round_timed_out rid cur s = Inr s'
            \<and> timers s' = timers s @ [(StartRoundCb rid, 5000)])
       \<and> (\<exists>s'. submit_guess_older sid rid guess s = Inr s'
            \<and> timers s' = timers s @ [(WinnerPauseCb rid, 1000)])
       \<and> run_callback (WinnerPauseCb rid) = run_callback (StartRoundCb rid)"
proof -
  have "run_callback (WinnerPauseCb rid) = run_callback (StartRoundCb rid)"
    by (rule ext) (simp add: winner_pause_is_startRound)
  with assms show ?thesis
    by (simp add: submit_guess_def submit_guess_older_def round_timed_out_def same_song_def
        srv_defs Let_def)
qed

theorem pause_after_resolution_witness:
  "(\<exists>s'. submit_guess ''s2'' ''ROOM1'' (JStr ''wonderwal'') round_demo = Inr s'
            \<and> timers s' = timers round_demo @ [(WinnerPauseCb ''ROOM1'', 5000)])
   \<and> (\<exists>s'. round_timed_out ''ROOM1'' wonderwall round_demo = Inr s'
            \<and> timers s' = timers round_demo @ [(StartRoundCb ''ROOM1'', 5000)])
   \<and> (\<exists>s'. submit_guess_older ''s2'' ''ROOM1'' (JStr ''wonderwal'') round_demo = Inr s'
            \<and> timers s' = timers round_demo @ [(WinnerPauseCb ''ROOM1'', 1000)])"
proof -
  have fnd: "find (\<lambda>p. player_id p = ''s2'') (players room_demo) = Some bob"
    by (simp add: demo_defs)
  show ?thesis
    using pause_after_resolution [OF round_demo_room room_demo_open wonderwall_guesses(1) fnd]
    by simp
qed

text \<open>
  \<^bold>\<open>C6\<close>, as the claim states it, fails: in the open round of the sample game the
  pause after Bob's right guess is not shorter than the pause after the timeout.
\<close>

theorem pause_not_shorter_after_win:
  "\<exists>s1 s2. submit_guess ''s2'' ''ROOM1'' (JStr ''wonderwal'') round_demo = Inr s1
     \<and> round_timed_out ''ROOM1'' wonderwall round_demo = Inr s2
     \<and> last (timers s1) = (WinnerPauseCb ''ROOM1'', 5000)
     \<and> last (timers s2) = (StartRoundCb ''ROOM1'', 5000)
     \<and> \<not> snd (last (timers s1)) < snd (last (timers s2))"
  using wonderwall_guesses(1)
  by (simp add: submit_guess_def round_timed_out_def same_song_def round_demo_def room_demo_def
      ann_def bob_def srv_defs Let_def)


text \<open>
  \<^bold>\<open>C7.\<close> A start that is waiting for its playlist fails when the request answers
  without candidates, when the 20 s timer fires first, or when the searches leave no song
  to play. Each time the room is what it was, with the phase \<open>LOBBY\<close>: playlist, number
  of rounds and round counter are untouched. One error event goes to the room, and no timer
  is armed.
\<close>

theorem failed_resolution_rolls_back:
  assumes "n < length (loads s)" "load_room (loads s ! n) = rid" "rooms s rid = Some room"
  shows "(stage (loads s ! n) = AwaitAi \<longrightarrow>
            failed_start rid room s (ai_reply n None s)
            \<and> failed_start rid room s (ai_reply n (Some 0) s)
            \<and> failed_start rid room s (ai_timeout n s))
       \<and> (stage (loads s ! n) = AwaitSearch (length results)
            \<and> slice0 (requestedRounds (loads s ! n)) (validSongs results) = [] \<longrightarrow>
            failed_start rid room s (search_reply n results s))"
proof -
  have len: "length (slice0 k (mk_songs r xs)) = length (slice0 k xs)"
    for k r and xs :: "(string \<times> string) list"
    by (simp add: slice0_def)
  have st: "rooms (set_stage n Settled s) rid = Some room"
    "outbox (set_stage n Settled s) = outbox s" "timers (set_stage n Settled s) = timers s"
    using assms by (simp_all add: set_stage_def)
  show ?thesis
    using assms st len [of "requestedRounds (loads s ! n)" "next_ref s" "validSongs results"]
    by (auto simp: failed_start_def ai_reply_def ai_timeout_def search_reply_def Let_def
        start_failed_def srv_defs)
qed

theorem failed_resolution_rolls_back_witness:
  "failed_start ''ROOM1'' loading_room loading_demo (ai_reply 0 None loading_demo)
   \<and> failed_start ''ROOM1'' loading_room loading_demo (ai_reply 0 (Some 0) loading_demo)
   \<and> failed_start ''ROOM1'' loading_room loading_demo (ai_timeout 0 loading_demo)
   \<and> failed_start ''ROOM1'' loading_room searching_demo
        (search_reply 0 [None, None, None] searching_demo)"
proof -
  have a: "0 < length (loads loading_demo)" "load_room (loads loading_demo ! 0) = ''ROOM1''"
    "rooms loading_demo ''ROOM1'' = Some loading_room" "stage (loads loading_demo ! 0) = AwaitAi"
    by (simp_all add: loading_demo_def)
  have b: "0 < length (loads searching_demo)" "load_room (loads searching_demo ! 0) = ''ROOM1''"
    "rooms searching_demo ''ROOM1'' = Some loading_room"
    "stage (loads searching_demo ! 0) = AwaitSearch (length [None, None, None :: (string \<times> string) option])"
    "slice0 (requestedRounds (loads searching_demo ! 0))
       (validSongs [None, None, None]) = []"
    by (simp_all add: searching_demo_def loading_demo_def validSongs_def slice0_def)
  show ?thesis
    using failed_resolution_rolls_back [OF a(1,2,3), of "[]"]
      failed_resolution_rolls_back [OF b(1,2,3), of "[None, None, None]"] a(4) b(4,5)
    by simp
qed

text \<open>
  \<^bold>\<open>C8\<close>, as the code has it. A guess for a room whose round is no longer open is
  dropped at the first line of the handler: the server stays as it is and sends nothing,
  to nobody. The private \<^verbatim>\<open>wrong_guess\<close> notice is what a guess gets that the matcher
  rejects while the round is open.
\<close>

theorem late_guess_ignored:
  "(rooms s rid = Some room \<and> \<not> roundActive room \<longrightarrow> submit_guess sid rid guess s = Inr s)
   \<and> (rooms s rid = Some room \<and> roundActive room \<and> state room = PLAYING
        \<and> currentSong room = Some cur \<and> checkAnswer guess (JStr (title cur)) = Inr False
      \<longrightarrow> submit_guess sid rid guess s = Inr (emit (ToSocket sid) wrong_guess s))"
  by (simp add: submit_guess_def)

theorem late_guess_ignored_witness:
  "submit_guess ''s1'' ''ROOM1'' (JStr ''wonderwal'') won_demo = Inr won_demo
   \<and> submit_guess ''s1'' ''ROOM1'' (JStr ''yesterday'') round_demo =
       Inr (emit (ToSocket ''s1'') wrong_guess round_demo)"
  using late_guess_ignored [of won_demo "''ROOM1''" won_room "''s1''" "JStr ''wonderwal''" wonderwall]
    late_guess_ignored [of round_demo "''ROOM1''" room_demo "''s1''" "JStr ''yesterday''" wonderwall]
  by (simp add: won_demo_room won_room_closed wonderwall_guesses round_demo_def room_demo_def)

text \<open>
  \<^bold>\<open>C8\<close>, as the claim states it, fails: after Bob has won the round, Ann's guess is
  answered by no notice.
\<close>

theorem late_guess_no_notice:
  "rooms won_demo ''ROOM1'' = Some won_room \<and> \<not> roundActive won_room \<and> state won_room = PLAYING
   \<and> (\<exists>s'. submit_guess ''s1'' ''ROOM1'' (JStr ''wonderwal'') won_demo = Inr s'
        \<and> outbox s' = outbox won_demo
        \<and> (ToSocket ''s1'', wrong_guess) \<notin> set (outbox s'))"
  by (simp add: submit_guess_def won_demo_def won_room_def room_demo_def round_demo_def)

subsection \<open>A guess that is not a string\<close>

text \<open>
  \<^bold>\<open>C10.\<close> The matcher is to return \<^verbatim>\<open>false\<close>, without throwing, on every pair of
  arguments. It does so for \<^verbatim>\<open>null\<close>, \<^verbatim>\<open>undefined\<close>, the empty string and zero, which its
  first line sends away. A truthy value without the method \<^verbatim>\<open>toLowerCase\<close> (a number
  other than zero, \<^verbatim>\<open>true\<close>, an array, an object) passes that line, and \<^verbatim>\<open>clean\<close>
  throws a \<^verbatim>\<open>TypeError\<close> on it, in both matchers. The handler of \<^verbatim>\<open>submit_guess\<close> hands
  the guess of the payload to the matcher as it comes: one such guess for an open round, from
  any socket, throws in the handler, and the run of the server ends there.
\<close>

theorem truthy_non_string_throws:
  "(truthy guess \<and> \<not> has_toLowerCase guess \<and> truthy actual \<longrightarrow>
      checkAnswer guess actual = Inl TypeError \<and> checkAnswer_earlier guess actual = Inl TypeError)
   \<and> (truthy guess \<and> \<not> has_toLowerCase guess \<and> rooms s rid = Some room \<and> roundActive room
        \<and> state room = PLAYING \<and> currentSong room = Some cur \<and> title cur \<noteq> [] \<longrightarrow>
      submit_guess sid rid guess s = Inl TypeError
      \<and> run (SubmitGuess sid rid guess # is) s = Inl TypeError)
   \<and> checkAnswer (JNum 5) (JStr ''Wonderwall'') = Inl TypeError
   \<and> checkAnswer_earlier (JNum 5) (JStr ''Wonderwall'') = Inl TypeError
   \<and> checkAnswer (JNum 0) (JStr ''Wonderwall'') = Inr False
   \<and> checkAnswer JNull (JStr ''Wonderwall'') = Inr False
   \<and> checkAnswer JUndefined (JStr ''Wonderwall'') = Inr False"
proof -
  have 1: "truthy guess \<and> \<not> has_toLowerCase guess \<and> truthy actual \<longrightarrow>
      checkAnswer guess actual = Inl TypeError \<and> checkAnswer_earlier guess actual = Inl TypeError"
    using checkAnswer_throws [of guess actual] by blast
  have 2: "truthy guess \<and> \<not> has_toLowerCase guess \<and> rooms s rid = Some room \<and> roundActive room
        \<and> state room = PLAYING \<and> currentSong room = Some cur \<and> title cur \<noteq> [] \<longrightarrow>
      submit_guess sid rid guess s = Inl TypeError
      \<and> run (SubmitGuess sid rid guess # is) s = Inl TypeError"
    using checkAnswer_throws(1) [of guess "JStr (title cur)"]
    by (auto simp: submit_guess_def)
  have 3: "checkAnswer (JNum 5) (JStr ''Wonderwall'') = Inl TypeError"
    "checkAnswer_earlier (JNum 5) (JStr ''Wonderwall'') = Inl TypeError"
    "checkAnswer (JNum 0) (JStr ''Wonderwall'') = Inr False"
    "checkAnswer JNull (JStr ''Wonderwall'') = Inr False"
    "checkAnswer JUndefined (JStr ''Wonderwall'') = Inr False"
    by (simp_all add: checkAnswer_def checkAnswer_earlier_def)
  from 1 2 3 show ?thesis by blast
qed

theorem truthy_non_string_throws_witness:
  "checkAnswer (JBool True) (JStr ''Song'') = Inl TypeError
   \<and> checkAnswer_earlier JObj (JStr ''Song'') = Inl TypeError
   \<and> submit_guess ''s9'' ''ROOM1'' (JNum 5) round_demo = Inl TypeError
   \<and> run [SubmitGuess ''s9'' ''ROOM1'' (JNum 5), SubmitGuess ''s2'' ''ROOM1'' (JStr ''wonderwal'')]
        round_demo = Inl TypeError"
proof -
  have t: "title wonderwall \<noteq> []"
    by (simp add: wonderwall_def)
  show ?thesis
    using truthy_non_string_throws [of "JBool True" "JStr ''Song''" round_demo "''ROOM1''" room_demo
        wonderwall "''s9''" "[]"]
      truthy_non_string_throws [of JObj "JStr ''Song''" round_demo "''ROOM1''" room_demo
        wonderwall "''s9''" "[]"]
      truthy_non_string_throws [of "JNum 5" "JStr ''Song''" round_demo "''ROOM1''" room_demo
        wonderwall "''s9''" "[SubmitGuess ''s2'' ''ROOM1'' (JStr ''wonderwal'')]"]
      round_demo_room room_demo_open t
    by simp
qed

end
